theory Spec2Isabelle
  imports Main "HOL-Library.Multiset" "HOL-Library.Sublist" "HOL-Library.Product_Lexorder"
begin

section \<open>Python text\<close>

text \<open>
  A Python \<open>str\<close> is modelled as a \<open>string\<close>; the characters are the code points
  below 256. Decoding and encoding of files are taken to be consistent and are not
  modelled; line-ending translation is.
\<close>

definition LF :: char where
  "LF = CHR 0x0A"

definition CR :: char where
  "CR = CHR 0x0D"

text \<open>\<open>str.isspace\<close> on one character: the white-space code points below 256.\<close>

definition isspace :: "char \<Rightarrow> bool" where
  "isspace c = (of_char c \<in> {9, 10, 11, 12, 13, 28, 29, 30, 31, 32, 133, 160 :: nat})"

text \<open>\<open>x.strip()\<close>: leading and trailing white space removed.\<close>

definition strip :: "string \<Rightarrow> string" where
  "strip s = rev (dropWhile isspace (rev (dropWhile isspace s)))"

text \<open>
  Reading in text mode with the default \<open>newline=None\<close>: \<open>\r\n\<close> and a lone \<open>\r\<close>
  both arrive as \<open>\n\<close>.
\<close>

fun universal_newlines :: "string \<Rightarrow> string" where
  "universal_newlines [] = []"
| "universal_newlines [c] = [if c = CR then LF else c]"
| "universal_newlines (c # d # cs) =
     (if c = CR \<and> d = LF then LF # universal_newlines cs
      else if c = CR then LF # universal_newlines (d # cs)
      else c # universal_newlines (d # cs))"

text \<open>\<open>readlines()\<close>: the text cut after every \<open>\n\<close>, the terminators kept.\<close>

fun split_after_LF :: "string \<Rightarrow> string \<Rightarrow> string list" where
  "split_after_LF acc [] = (if acc = [] then [] else [acc])"
| "split_after_LF acc (c # cs) =
     (if c = LF then (acc @ [c]) # split_after_LF [] cs
      else split_after_LF (acc @ [c]) cs)"

definition readlines :: "string \<Rightarrow> string list" where
  "readlines s = split_after_LF [] s"

text \<open>\<open>str(n)\<close> for an integer: its decimal digits, with a minus sign when negative.\<close>

definition digit :: "nat \<Rightarrow> char" where
  "digit d = ''0123456789'' ! d"

fun str_nat :: "nat \<Rightarrow> string" where
  "str_nat n = (if n < 10 then [digit n] else str_nat (n div 10) @ [digit (n mod 10)])"

declare str_nat.simps [simp del]

definition str_int :: "int \<Rightarrow> string" where
  "str_int i = (if i < 0 then CHR ''-'' # str_nat (nat (- i)) else str_nat (nat i))"

section \<open>The standard library: \<open>difflib.unified_diff\<close>\<close>

text \<open>
  The settings comparison prints what \<open>difflib.unified_diff\<close> of the interpreter's
  standard library yields. The definitions below follow \<open>Lib/difflib.py\<close>:
  \<open>SequenceMatcher(None, a, b)\<close> with its default \<open>autojunk=True\<close>, then
  \<open>get_matching_blocks\<close>, \<open>get_opcodes\<close>, \<open>get_grouped_opcodes\<close> and
  \<open>unified_diff\<close>. With \<open>isjunk=None\<close> the junk set is empty, so the two loops of
  \<open>find_longest_match\<close> that extend a match over junk never run and are left out.
  Indices are natural numbers; the source's differences that could be negative are
  only compared with \<open>max\<close> against a natural number or formatted, and are written
  so that the value is the source's. The source's variables \<open>size\<close>, \<open>length\<close> and
  \<open>group\<close> are \<open>sz\<close>, \<open>len\<close> and \<open>grp\<close> here, and the command \<open>comp\<close> is
  \<open>comp_cmd\<close>: the plain names are constants of the library.
\<close>

text \<open>
  \<open>__chain_b\<close>: \<open>b2j\<close> maps every element of \<open>b\<close> to the ascending list of its
  positions; elements that occur more than \<open>n // 100 + 1\<close> times in a sequence of at
  least 200 elements are popular and are removed from the dictionary.
\<close>

definition popular :: "'a list \<Rightarrow> 'a \<Rightarrow> bool" where
  "popular b elt = (200 \<le> length b \<and> length b div 100 + 1 < count_list b elt)"

definition b2j :: "'a list \<Rightarrow> 'a \<rightharpoonup> nat list" where
  "b2j b elt =
     (if elt \<in> set b \<and> \<not> popular b elt then Some [j \<leftarrow> [0..<length b]. b ! j = elt] else None)"

definition j2lenget :: "(nat \<rightharpoonup> nat) \<Rightarrow> nat \<Rightarrow> nat" where
  "j2lenget j2len j = (if j = 0 then 0 else case j2len (j - 1) of None \<Rightarrow> 0 | Some k \<Rightarrow> k)"

type_synonym best = "nat \<times> nat \<times> nat"

fun scan_row :: "nat \<Rightarrow> nat \<Rightarrow> nat \<Rightarrow> (nat \<rightharpoonup> nat) \<Rightarrow> nat list \<Rightarrow>
    (nat \<rightharpoonup> nat) \<times> best \<Rightarrow> (nat \<rightharpoonup> nat) \<times> best" where
  "scan_row blo bhi i j2len [] st = st"
| "scan_row blo bhi i j2len (j # js) (newj2len, besti, bestj, bestsize) =
     (if j < blo then scan_row blo bhi i j2len js (newj2len, besti, bestj, bestsize)
      else if bhi \<le> j then (newj2len, besti, bestj, bestsize)
      else let k = j2lenget j2len j + 1 in
        if bestsize < k then scan_row blo bhi i j2len js (newj2len(j \<mapsto> k), i + 1 - k, j + 1 - k, k)
        else scan_row blo bhi i j2len js (newj2len(j \<mapsto> k), besti, bestj, bestsize))"

fun scan_rows :: "'a list \<Rightarrow> 'a list \<Rightarrow> nat \<Rightarrow> nat \<Rightarrow> nat list \<Rightarrow>
    (nat \<rightharpoonup> nat) \<times> best \<Rightarrow> (nat \<rightharpoonup> nat) \<times> best" where
  "scan_rows a b blo bhi [] st = st"
| "scan_rows a b blo bhi (i # is) (j2len, bst) =
     scan_rows a b blo bhi is
       (scan_row blo bhi i j2len (case b2j b (a ! i) of None \<Rightarrow> [] | Some js \<Rightarrow> js)
          (Map.empty, bst))"

function extend_left :: "'a list \<Rightarrow> 'a list \<Rightarrow> nat \<Rightarrow> nat \<Rightarrow> best \<Rightarrow> best" where
  "extend_left a b alo blo (besti, bestj, bestsize) =
     (if alo < besti \<and> blo < bestj \<and> a ! (besti - 1) = b ! (bestj - 1)
      then extend_left a b alo blo (besti - 1, bestj - 1, bestsize + 1)
      else (besti, bestj, bestsize))"
  by pat_completeness auto
termination
  by (relation "measure (\<lambda>(a, b, alo, blo, besti, bestj, bestsize). besti)") auto

declare extend_left.simps [simp del]

function extend_right :: "'a list \<Rightarrow> 'a list \<Rightarrow> nat \<Rightarrow> nat \<Rightarrow> best \<Rightarrow> best" where
  "extend_right a b ahi bhi (besti, bestj, bestsize) =
     (if besti + bestsize < ahi \<and> bestj + bestsize < bhi \<and>
         a ! (besti + bestsize) = b ! (bestj + bestsize)
      then extend_right a b ahi bhi (besti, bestj, bestsize + 1)
      else (besti, bestj, bestsize))"
  by pat_completeness auto
termination
  by (relation "measure (\<lambda>(a, b, ahi, bhi, besti, bestj, bestsize). ahi - (besti + bestsize))") auto

declare extend_right.simps [simp del]

definition find_longest_match :: "'a list \<Rightarrow> 'a list \<Rightarrow> nat \<Rightarrow> nat \<Rightarrow> nat \<Rightarrow> nat \<Rightarrow> best" where
  "find_longest_match a b alo ahi blo bhi =
     extend_right a b ahi bhi
       (extend_left a b alo blo
          (snd (scan_rows a b blo bhi [alo..<ahi] (Map.empty, alo, blo, 0))))"


definition best_ok :: "nat \<Rightarrow> nat \<Rightarrow> nat \<Rightarrow> nat \<Rightarrow> best \<Rightarrow> bool" where
  "best_ok alo ahi blo bhi bst =
     (case bst of (besti, bestj, bestsize) \<Rightarrow>
        alo \<le> besti \<and> blo \<le> bestj \<and>
        (if bestsize = 0 then besti = alo \<and> bestj = blo
         else besti + bestsize \<le> ahi \<and> bestj + bestsize \<le> bhi))"

definition row_ok :: "nat \<Rightarrow> nat \<Rightarrow> (nat \<rightharpoonup> nat) \<Rightarrow> bool" where
  "row_ok blo n m = (\<forall>j v. m j = Some v \<longrightarrow> blo \<le> j \<and> v \<le> j + 1 - blo \<and> v \<le> n)"

lemma j2lenget_le:
  assumes "row_ok blo n m" "blo \<le> j"
  shows "j2lenget m j \<le> j - blo \<and> j2lenget m j \<le> n"
proof (cases "j = 0")
  case True
  then show ?thesis by (simp add: j2lenget_def)
next
  case False
  show ?thesis
  proof (cases "m (j - 1)")
    case None
    with False show ?thesis by (simp add: j2lenget_def)
  next
    case (Some v)
    with assms(1) have "blo \<le> j - 1" "v \<le> j - 1 + 1 - blo" "v \<le> n"
      by (auto simp: row_ok_def)
    with False Some show ?thesis by (simp add: j2lenget_def)
  qed
qed

lemma scan_row_ok:
  assumes "row_ok blo (i - alo) j2len" "alo \<le> i" "i < ahi"
  shows "row_ok blo (i + 1 - alo) newj2len \<Longrightarrow> best_ok alo ahi blo bhi bst \<Longrightarrow>
     row_ok blo (i + 1 - alo) (fst (scan_row blo bhi i j2len js (newj2len, bst))) \<and>
     best_ok alo ahi blo bhi (snd (scan_row blo bhi i j2len js (newj2len, bst)))"
proof (induction js arbitrary: newj2len bst)
  case Nil
  then show ?case by simp
next
  case (Cons j js)
  obtain besti bestj bestsize where bst: "bst = (besti, bestj, bestsize)"
    by (cases bst) auto
  show ?case
  proof (cases "j < blo \<or> bhi \<le> j")
    case True
    with Cons bst show ?thesis by auto
  next
    case False
    then have j: "blo \<le> j" "j < bhi" by auto
    define k where "k = j2lenget j2len j + 1"
    from j2lenget_le [OF assms(1) j(1)] have k: "k \<le> j + 1 - blo" "k \<le> i + 1 - alo" "0 < k"
      using j assms(2) by (auto simp: k_def)
    have new: "row_ok blo (i + 1 - alo) (newj2len(j \<mapsto> k))"
      using Cons.prems(1) k j by (auto simp: row_ok_def)
    have b1: "best_ok alo ahi blo bhi (i + 1 - k, j + 1 - k, k)"
      using k j assms(2,3) by (auto simp: best_ok_def)
    show ?thesis
    proof (cases "bestsize < k")
      case True
      with j bst have eq: "scan_row blo bhi i j2len (j # js) (newj2len, bst) =
          scan_row blo bhi i j2len js (newj2len(j \<mapsto> k), i + 1 - k, j + 1 - k, k)"
        by (simp add: k_def Let_def)
      show ?thesis
        unfolding eq by (rule Cons.IH [OF new b1])
    next
      case False
      with j bst have eq: "scan_row blo bhi i j2len (j # js) (newj2len, bst) =
          scan_row blo bhi i j2len js (newj2len(j \<mapsto> k), bst)"
        by (simp add: k_def Let_def)
      show ?thesis
        unfolding eq by (rule Cons.IH [OF new Cons.prems(2)])
    qed
  qed
qed

lemma row_ok_empty: "row_ok blo n Map.empty"
  by (simp add: row_ok_def)

lemma scan_rows_ok:
  "alo \<le> i \<Longrightarrow> row_ok blo (i - alo) j2len \<Longrightarrow> best_ok alo ahi blo bhi bst \<Longrightarrow>
   best_ok alo ahi blo bhi (snd (scan_rows a b blo bhi [i..<ahi] (j2len, bst)))"
proof (induction "ahi - i" arbitrary: i j2len bst)
  case 0
  then show ?case by simp
next
  case (Suc n)
  then have lt: "i < ahi" by simp
  let ?js = "case b2j b (a ! i) of None \<Rightarrow> [] | Some js \<Rightarrow> js"
  let ?st = "scan_row blo bhi i j2len ?js (Map.empty, bst)"
  have step: "row_ok blo (i + 1 - alo) (fst ?st) \<and> best_ok alo ahi blo bhi (snd ?st)"
    by (rule scan_row_ok [OF Suc.prems(2) Suc.prems(1) lt row_ok_empty Suc.prems(3)])
  have "best_ok alo ahi blo bhi (snd (scan_rows a b blo bhi [Suc i..<ahi] (fst ?st, snd ?st)))"
    using Suc.hyps(1) [of "Suc i" "fst ?st" "snd ?st"] Suc.hyps(2) Suc.prems(1) step
    by simp
  then show ?case
    using lt by (simp add: upt_conv_Cons)
qed

lemma extend_left_ok:
  "best_ok alo ahi blo bhi bst \<Longrightarrow> best_ok alo ahi blo bhi (extend_left a b alo blo bst)"
proof (induction a b alo blo bst rule: extend_left.induct)
  case (1 a b alo blo besti bestj bestsize)
  show ?case
  proof (cases "alo < besti \<and> blo < bestj \<and> a ! (besti - 1) = b ! (bestj - 1)")
    case True
    with "1.prems" have "best_ok alo ahi blo bhi (besti - 1, bestj - 1, bestsize + 1)"
      by (auto simp: best_ok_def split: if_splits)
    from "1.IH" [OF True this] show ?thesis
      by (subst extend_left.simps) (simp only: if_P [OF True])
  next
    case False
    show ?thesis
      by (subst extend_left.simps) (simp only: if_not_P [OF False] "1.prems")
  qed
qed

lemma extend_right_ok:
  "best_ok alo ahi blo bhi bst \<Longrightarrow> best_ok alo ahi blo bhi (extend_right a b ahi bhi bst)"
proof (induction a b ahi bhi bst rule: extend_right.induct)
  case (1 a b ahi bhi besti bestj bestsize)
  show ?case
  proof (cases "besti + bestsize < ahi \<and> bestj + bestsize < bhi \<and>
         a ! (besti + bestsize) = b ! (bestj + bestsize)")
    case True
    with "1.prems" have "best_ok alo ahi blo bhi (besti, bestj, bestsize + 1)"
      by (auto simp: best_ok_def split: if_splits)
    from "1.IH" [OF True this] show ?thesis
      by (subst extend_right.simps) (simp only: if_P [OF True])
  next
    case False
    show ?thesis
      by (subst extend_right.simps) (simp only: if_not_P [OF False] "1.prems")
  qed
qed

lemma find_longest_match_ok: "best_ok alo ahi blo bhi (find_longest_match a b alo ahi blo bhi)"
  unfolding find_longest_match_def
  by (intro extend_right_ok extend_left_ok scan_rows_ok) (simp_all add: row_ok_empty best_ok_def)

lemma find_longest_match_bounds:
  assumes "find_longest_match a b alo ahi blo bhi = (i, j, k)"
  shows "alo \<le> i" "blo \<le> j" "0 < k \<Longrightarrow> i + k \<le> ahi" "0 < k \<Longrightarrow> j + k \<le> bhi"
  using find_longest_match_ok [of alo ahi blo bhi a b] assms
  by (auto simp: best_ok_def split: if_splits)

type_synonym span = "nat \<times> nat \<times> nat \<times> nat"

definition span_size :: "span \<Rightarrow> nat" where
  "span_size q = (case q of (alo, ahi, blo, bhi) \<Rightarrow> (ahi - alo) + (bhi - blo) + 1)"

function matching_loop :: "'a list \<Rightarrow> 'a list \<Rightarrow> span list \<Rightarrow> best list \<Rightarrow> best list" where
  "matching_loop a b [] matching_blocks = matching_blocks"
| "matching_loop a b ((alo, ahi, blo, bhi) # queue) matching_blocks =
     (case find_longest_match a b alo ahi blo bhi of (i, j, k) \<Rightarrow>
        if k \<noteq> 0 then
          matching_loop a b
            ((if i + k < ahi \<and> j + k < bhi then [(i + k, ahi, j + k, bhi)] else []) @
             (if alo < i \<and> blo < j then [(alo, i, blo, j)] else []) @ queue)
            (matching_blocks @ [(i, j, k)])
        else matching_loop a b queue matching_blocks)"
  by pat_completeness auto
termination
  apply (relation "measure (\<lambda>(a, b, queue, blocks). sum_list (map span_size queue))")
    apply simp
  subgoal for a b alo ahi blo bhi queue blocks i x2 j k
    using find_longest_match_bounds [of a b alo ahi blo bhi i j k]
    by (auto simp: span_size_def)
  subgoal
    by (simp add: span_size_def)
  done


text \<open>
  \<open>get_matching_blocks\<close>: the blocks found, sorted, adjacent ones merged, and the
  closing dummy \<open>(len(a), len(b), 0)\<close>. The work list \<open>queue\<close> above is a stack
  (\<open>append\<close> and \<open>pop\<close> at the end); its top is the head of the list.
\<close>

fun collapse :: "best \<Rightarrow> best list \<Rightarrow> best list" where
  "collapse (i1, j1, k1) [] = (if k1 \<noteq> 0 then [(i1, j1, k1)] else [])"
| "collapse (i1, j1, k1) ((i2, j2, k2) # ms) =
     (if i1 + k1 = i2 \<and> j1 + k1 = j2 then collapse (i1, j1, k1 + k2) ms
      else (if k1 \<noteq> 0 then [(i1, j1, k1)] else []) @ collapse (i2, j2, k2) ms)"

definition get_matching_blocks :: "'a list \<Rightarrow> 'a list \<Rightarrow> best list" where
  "get_matching_blocks a b =
     collapse (0, 0, 0) (sort (matching_loop a b [(0, length a, 0, length b)] [])) @
     [(length a, length b, 0)]"

datatype tag = Replace | Delete | Insert | Equal

type_synonym opcode = "tag \<times> nat \<times> nat \<times> nat \<times> nat"

fun opcodes_from :: "nat \<Rightarrow> nat \<Rightarrow> best list \<Rightarrow> opcode list" where
  "opcodes_from i j [] = []"
| "opcodes_from i j ((ai, bj, sz) # ms) =
     (if i < ai \<and> j < bj then [(Replace, i, ai, j, bj)]
      else if i < ai then [(Delete, i, ai, j, bj)]
      else if j < bj then [(Insert, i, ai, j, bj)]
      else []) @
     (if sz \<noteq> 0 then [(Equal, ai, ai + sz, bj, bj + sz)] else []) @
     opcodes_from (ai + sz) (bj + sz) ms"

definition get_opcodes :: "'a list \<Rightarrow> 'a list \<Rightarrow> opcode list" where
  "get_opcodes a b = opcodes_from 0 0 (get_matching_blocks a b)"

text \<open>
  \<open>get_grouped_opcodes\<close>: a leading and a trailing \<open>equal\<close> code are cut down to
  \<open>n\<close> lines of context, and a new group starts at every run of more than \<open>2n\<close>
  equal lines. A group that is a single \<open>equal\<close> code is not yielded.
\<close>

definition trim_first :: "nat \<Rightarrow> opcode list \<Rightarrow> opcode list" where
  "trim_first n codes =
     (case codes of
        [] \<Rightarrow> []
      | (tag, i1, i2, j1, j2) # cs \<Rightarrow>
          if tag = Equal then (tag, max i1 (i2 - n), i2, max j1 (j2 - n), j2) # cs else codes)"

definition trim_last :: "nat \<Rightarrow> opcode list \<Rightarrow> opcode list" where
  "trim_last n codes =
     (if codes = [] then []
      else case last codes of
        (tag, i1, i2, j1, j2) \<Rightarrow>
          if tag = Equal then butlast codes @ [(tag, i1, min i2 (i1 + n), j1, min j2 (j1 + n))]
          else codes)"

fun group_loop :: "nat \<Rightarrow> opcode list \<Rightarrow> opcode list \<Rightarrow> opcode list list" where
  "group_loop n [] grp =
     (if grp \<noteq> [] \<and> \<not> (length grp = 1 \<and> fst (hd grp) = Equal) then [grp] else [])"
| "group_loop n ((tag, i1, i2, j1, j2) # codes) grp =
     (if tag = Equal \<and> n + n < i2 - i1
      then (grp @ [(tag, i1, min i2 (i1 + n), j1, min j2 (j1 + n))]) #
           group_loop n codes [(tag, max i1 (i2 - n), i2, max j1 (j2 - n), j2)]
      else group_loop n codes (grp @ [(tag, i1, i2, j1, j2)]))"

definition get_grouped_opcodes :: "'a list \<Rightarrow> 'a list \<Rightarrow> nat \<Rightarrow> opcode list list" where
  "get_grouped_opcodes a b n =
     (let codes = get_opcodes a b;
          codes = (if codes = [] then [(Equal, 0, 1, 0, 1)] else codes)
      in group_loop n (trim_last n (trim_first n codes)) [])"

definition format_range_unified :: "nat \<Rightarrow> nat \<Rightarrow> string" where
  "format_range_unified start stop =
     (let beginning = int start + 1; len = int stop - int start in
      if len = 1 then str_int beginning
      else str_int (if len = 0 then beginning - 1 else beginning) @ '','' @ str_int len)"

text \<open>The slice \<open>xs[i1:i2]\<close> for indices that are not negative.\<close>

definition slice :: "'a list \<Rightarrow> nat \<Rightarrow> nat \<Rightarrow> 'a list" where
  "slice xs i1 i2 = take (i2 - i1) (drop i1 xs)"

fun opcode_lines :: "string list \<Rightarrow> string list \<Rightarrow> opcode \<Rightarrow> string list" where
  "opcode_lines a b (tag, i1, i2, j1, j2) =
     (if tag = Equal then map (\<lambda>line. '' '' @ line) (slice a i1 i2)
      else (if tag \<in> {Replace, Delete} then map (\<lambda>line. ''-'' @ line) (slice a i1 i2) else []) @
           (if tag \<in> {Replace, Insert} then map (\<lambda>line. ''+'' @ line) (slice b j1 j2) else []))"

text \<open>The lines of one group (\<open>grp\<close>); a group is never empty.\<close>

definition hunk :: "string list \<Rightarrow> string list \<Rightarrow> string \<Rightarrow> opcode list \<Rightarrow> string list" where
  "hunk a b lineterm grp =
     (case (hd grp, last grp) of
        ((tag1, f1, f2, f3, f4), (tag2, l1, l2, l3, l4)) \<Rightarrow>
          (''@@ -'' @ format_range_unified f1 l2 @ '' +'' @ format_range_unified f3 l4 @
           '' @@'' @ lineterm) #
          concat (map (opcode_lines a b) grp))"

definition unified_diff ::
  "string list \<Rightarrow> string list \<Rightarrow> string \<Rightarrow> string \<Rightarrow> string \<Rightarrow> string \<Rightarrow> nat \<Rightarrow> string \<Rightarrow> string list" where
  "unified_diff a b fromfile tofile fromfiledate tofiledate n lineterm =
     (let groups = get_grouped_opcodes a b n;
          fromdate = (if fromfiledate \<noteq> [] then CHR 0x09 # fromfiledate else []);
          todate = (if tofiledate \<noteq> [] then CHR 0x09 # tofiledate else [])
      in (if groups = [] then []
          else [''--- '' @ fromfile @ fromdate @ lineterm, ''+++ '' @ tofile @ todate @ lineterm]) @
         concat (map (hunk a b lineterm) groups))"

section \<open>The machine: platform, environment, file system, processes\<close>

text \<open>
  A path of the file system is the list of its components from the root. A
  \<open>pathlib.Path\<close> value is either relative (resolved by the operating system against
  the working directory when the file is opened) or anchored at the root.
\<close>

type_synonym path = "string list"

datatype pypath = Rel "string list" | Abs "string list"

datatype error =
    FileNotFoundError path
  | UnboundLocalError string
  | TypeError
  | ValueError
  | OSError

datatype event =
    OpenR path
  | OpenW path
  | Read path
  | Write path string
  | Close path
  | Run "string list" bool

text \<open>
  \<open>platform\<close> is \<open>sys.platform\<close>, \<open>IS_WINDOWS\<close> the module's global flag (\<open>None\<close>
  until the entry point sets it), \<open>APPDATA\<close> the environment variable (an absolute
  directory when set), \<open>clock\<close> the current time in whole epoch seconds.
  \<open>files\<close> maps the path of every regular file to its content and \<open>dirs\<close> is the
  set of directories. \<open>code_installed\<close> says whether the editor's command is on the
  execution path, \<open>code_extensions\<close> is what its list-extensions subcommand prints and
  \<open>exit_status\<close> the status a command ends with, \<open>arg_max\<close> the length of the
  longest argument the platform passes to a new process. \<open>set_order\<close> is the order in which
  the interpreter iterates over a hash set of strings, given its elements; it is a
  property of the interpreter run and not fixed by the language. \<open>stdout\<close>
  collects what is printed, \<open>events\<close> every file operation and process launch.
\<close>

record world =
  platform :: string
  IS_WINDOWS :: "bool option"
  home :: path
  APPDATA :: "path option"
  cwd :: path
  clock :: int
  files :: "path \<rightharpoonup> string"
  dirs :: "path set"
  code_installed :: bool
  code_extensions :: string
  exit_status :: "string list \<Rightarrow> int"
  arg_max :: nat
  set_order :: "string list \<Rightarrow> string list"
  stdout :: string
  events :: "event list"

type_synonym 'a io = "world \<Rightarrow> (error + 'a) \<times> world"

definition truthy :: "bool option \<Rightarrow> bool" where
  "truthy b = (b = Some True)"

definition emit :: "event \<Rightarrow> world \<Rightarrow> world" where
  "emit ev w = w\<lparr>events := events w @ [ev]\<rparr>"

definition resolve :: "world \<Rightarrow> pypath \<Rightarrow> path" where
  "resolve w p = (case p of Abs ps \<Rightarrow> ps | Rel ps \<Rightarrow> cwd w @ ps)"

text \<open>
  \<open>Path.expanduser()\<close>: a relative path whose first component is \<open>~\<close> continues from
  the home directory; an anchored path is returned as it is.
\<close>

definition expanduser :: "world \<Rightarrow> pypath \<Rightarrow> pypath" where
  "expanduser w p =
     (case p of
        Abs ps \<Rightarrow> Abs ps
      | Rel ps \<Rightarrow> (case ps of [] \<Rightarrow> Rel ps
                   | c # cs \<Rightarrow> if c = ''~'' then Abs (home w @ cs) else Rel ps))"

text \<open>
  \<open>open(p, "r")\<close> raises \<open>FileNotFoundError\<close> when there is no such file;
  \<open>open(p, "w")\<close> raises it when the directory of the file does not exist, and
  otherwise creates the file or empties it.
\<close>

definition open_r :: "pypath \<Rightarrow> path io" where
  "open_r p w =
     (let q = resolve w p in
      case files w q of
        None \<Rightarrow> (Inl (FileNotFoundError q), w)
      | Some c \<Rightarrow> (Inr q, emit (OpenR q) w))"

definition open_w :: "pypath \<Rightarrow> path io" where
  "open_w p w =
     (let q = resolve w p in
      if butlast q \<in> dirs w
      then (Inr q, emit (OpenW q) (w\<lparr>files := (files w)(q \<mapsto> [])\<rparr>))
      else (Inl (FileNotFoundError q), w))"

definition content :: "world \<Rightarrow> path \<Rightarrow> string" where
  "content w q = (case files w q of None \<Rightarrow> [] | Some c \<Rightarrow> c)"

definition read_text :: "path \<Rightarrow> world \<Rightarrow> string \<times> world" where
  "read_text q w = (universal_newlines (content w q), emit (Read q) w)"

definition write_text :: "path \<Rightarrow> string \<Rightarrow> world \<Rightarrow> world" where
  "write_text q s w = emit (Write q s) (w\<lparr>files := (files w)(q \<mapsto> content w q @ s)\<rparr>)"

definition close :: "path \<Rightarrow> world \<Rightarrow> world" where
  "close q w = emit (Close q) w"

text \<open>
  \<open>with opener(p) as f: body\<close>: the file is closed when the body ends, also when it
  ends with an exception; nothing is closed when the opening itself fails.
\<close>

definition with_open :: "(pypath \<Rightarrow> path io) \<Rightarrow> pypath \<Rightarrow> (path \<Rightarrow> 'a io) \<Rightarrow> 'a io" where
  "with_open opener p body w =
     (case opener p w of
        (Inl e, w1) \<Rightarrow> (Inl e, w1)
      | (Inr f, w1) \<Rightarrow> (case body f w1 of (r, w2) \<Rightarrow> (r, close f w2)))"

section \<open>The settings file: restore\<close>

text \<open>
  The \<open>if\<close>/\<open>elif\<close> that binds the local \<open>p\<close>: on Linux the path under the home
  directory, not yet expanded; on Windows the path under \<open>APPDATA\<close>
  (\<open>pathlib.Path(None)\<close> raises \<open>TypeError\<close>); on any other platform \<open>p\<close> stays
  unbound, which is the value \<open>None\<close> here.
\<close>

definition settings_json :: "string list" where
  "settings_json = [''Code'', ''User'', ''settings.json'']"

definition bind_p :: "world \<Rightarrow> error + pypath option" where
  "bind_p w =
     (if prefix ''linux'' (platform w) then Inr (Some (Rel ([''~'', ''.config''] @ settings_json)))
      else if truthy (IS_WINDOWS w) then
        (case APPDATA w of
           None \<Rightarrow> Inl TypeError
         | Some a \<Rightarrow> Inr (Some (Abs (a @ settings_json))))
      else Inr None)"

definition snapshot_name :: "world \<Rightarrow> string" where
  "snapshot_name w = ''vscode-settings-'' @ str_int (clock w) @ ''.jsonc''"

text \<open>The body shared by both steps of restore: \<open>dst.write(src.read())\<close>.\<close>

definition copy_text :: "path \<Rightarrow> path \<Rightarrow> unit io" where
  "copy_text src dst w = (case read_text src w of (c, w1) \<Rightarrow> (Inr (), write_text dst c w1))"

definition restore :: "unit io" where
  "restore w =
     (case bind_p w of
        Inl e \<Rightarrow> (Inl e, w)
      | Inr None \<Rightarrow> (Inl (UnboundLocalError ''p''), w)
      | Inr (Some p) \<Rightarrow>
          (case with_open open_r (expanduser w p) (\<lambda>file_system.
                  with_open open_w (Rel [snapshot_name w]) (\<lambda>file_backup.
                    copy_text file_system file_backup)) w of
             (Inl e, w1) \<Rightarrow> (Inl e, w1)
           | (Inr u, w1) \<Rightarrow>
               with_open open_r (Rel [''vscode-settings.jsonc'']) (\<lambda>file_to_restore.
                 with_open open_w p (\<lambda>file_system.
                   copy_text file_to_restore file_system)) w1))"

section \<open>The settings file: diff\<close>

definition writelines :: "string list \<Rightarrow> world \<Rightarrow> world" where
  "writelines ls w = w\<lparr>stdout := stdout w @ concat ls\<rparr>"

definition file_readlines :: "path \<Rightarrow> world \<Rightarrow> string list \<times> world" where
  "file_readlines q w = (case read_text q w of (s, w1) \<Rightarrow> (readlines s, w1))"

definition diff :: "unit io" where
  "diff w =
     with_open open_r (Rel [''vscode-settings.jsonc'']) (\<lambda>file_backup w1.
       case bind_p w1 of
         Inl e \<Rightarrow> (Inl e, w1)
       | Inr None \<Rightarrow> (Inl (UnboundLocalError ''p''), w1)
       | Inr (Some p) \<Rightarrow>
           with_open open_r (expanduser w1 p) (\<lambda>file_system w2.
             case file_readlines file_backup w2 of (lines_backup, w3) \<Rightarrow>
             case file_readlines file_system w3 of (lines_system, w4) \<Rightarrow>
               (Inr (), writelines
                  (unified_diff lines_backup lines_system ''before.json'' ''after.json'' [] [] 3 [LF])
                  w4)) w1) w"

section \<open>Processes\<close>

text \<open>
  A command given as an argument list starts when the editor's command is on the
  execution path, or when it is handed to the shell (\<open>shell=IS_WINDOWS\<close>, which
  starts in any case); otherwise \<open>subprocess\<close> raises \<open>FileNotFoundError\<close>. What
  the command does to the editor's own state is outside the model.
\<close>

definition starts :: "world \<Rightarrow> bool" where
  "starts w = (truthy (IS_WINDOWS w) \<or> code_installed w)"

definition launch :: "string list \<Rightarrow> world \<Rightarrow> world" where
  "launch args w = emit (Run args (truthy (IS_WINDOWS w))) w"

text \<open>
  \<open>subprocess.run(args, shell=IS_WINDOWS)\<close>. An argument with a NUL character in
  it cannot be passed to a process: \<open>ValueError\<close> is raised before anything is
  started. An argument longer than the platform allows makes the start fail with
  an \<open>OSError\<close>. When the command has run, its exit status is returned, never
  raised. The two fixed command lines of this program (the list query and the
  copy) hold no NUL character and are taken to be within the platform's limit.
\<close>

definition has_nul :: "string list \<Rightarrow> bool" where
  "has_nul args = (\<exists>a\<in>set args. CHR 0x00 \<in> set a)"

definition too_long :: "world \<Rightarrow> string list \<Rightarrow> bool" where
  "too_long w args = (\<exists>a\<in>set args. arg_max w < length a)"

definition subprocess_run :: "string list \<Rightarrow> int io" where
  "subprocess_run args w =
     (if has_nul args then (Inl ValueError, w)
      else if \<not> starts w then (Inl (FileNotFoundError [''code'']), w)
      else if too_long w args then (Inl OSError, w)
      else (Inr (exit_status w args), launch args w))"

definition list_extensions :: "string list" where
  "list_extensions = [''code'', ''--list-extensions'']"

text \<open>What the list-extensions command writes to its standard output.\<close>

definition listed :: "world \<Rightarrow> string" where
  "listed w = (if code_installed w then code_extensions w else [])"

text \<open>\<open>subprocess.run(args, stdout=file, shell=IS_WINDOWS)\<close>: the output goes to the file.\<close>

definition run_into :: "path \<Rightarrow> string list \<Rightarrow> int io" where
  "run_into file args w =
     (if starts w
      then (Inr (exit_status w args),
            launch args (w\<lparr>files := (files w)(file \<mapsto> content w file @ listed w)\<rparr>))
      else (Inl (FileNotFoundError [''code'']), w))"

text \<open>\<open>subprocess.Popen(args, stdout=PIPE, shell=IS_WINDOWS)\<close> and \<open>p.stdout.readlines()\<close>.\<close>

definition popen_readlines :: "string list \<Rightarrow> string list io" where
  "popen_readlines args w =
     (if starts w then (Inr (readlines (listed w)), launch args w)
      else (Inl (FileNotFoundError [''code'']), w))"

text \<open>
  A copy command run by the shell (\<open>shell=True\<close>): the destination receives the
  bytes of the source; when the source is missing or the destination's directory
  is, the command fails and changes nothing, and its status is not looked at.
\<close>

definition copy_file :: "path \<Rightarrow> path \<Rightarrow> world \<Rightarrow> world" where
  "copy_file src dst w =
     (case files w src of
        None \<Rightarrow> w
      | Some c \<Rightarrow> if butlast dst \<in> dirs w then w\<lparr>files := (files w)(dst \<mapsto> c)\<rparr> else w)"

text \<open>\<open>str(p)\<close> of a Windows path: the components joined by backslashes.\<close>

fun win_str :: "path \<Rightarrow> string" where
  "win_str [] = []"
| "win_str [c] = c"
| "win_str (c # d # cs) = c @ [CHR 0x5C] @ win_str (d # cs)"

section \<open>The extension list: backup, comp, install, uninstall\<close>

definition ext_file :: pypath where
  "ext_file = Rel [''vscode-extensions.txt'']"

text \<open>
  On Linux the shell expands \<open>~\<close> to the home directory. On Windows the path is
  put into the command line unquoted, so a path with a space in it is not one
  argument of \<open>copy\<close> and the command fails.
\<close>

definition backup :: "unit io" where
  "backup w =
     (case with_open open_w ext_file (\<lambda>file. run_into file list_extensions) w of
        (Inl e, w1) \<Rightarrow> (Inl e, w1)
      | (Inr status, w1) \<Rightarrow>
          if prefix ''linux'' (platform w1) then
            (Inr (),
             copy_file (home w1 @ [''.config''] @ settings_json) (cwd w1 @ [''vscode-settings.jsonc''])
               (emit (Run [''cp ~/.config/Code/User/settings.json ./vscode-settings.jsonc''] True) w1))
          else if truthy (IS_WINDOWS w1) then
            (case APPDATA w1 of
               None \<Rightarrow> (Inl TypeError, w1)
             | Some a \<Rightarrow>
                 (let p = a @ settings_json;
                      w2 = emit (Run [''copy '' @ win_str p @ '' .'' @ [CHR 0x5C] @ ''vscode-settings.jsonc''] True) w1
                  in (Inr (),
                      if CHR '' '' \<in> set (win_str p) then w2
                      else copy_file p (cwd w2 @ [''vscode-settings.jsonc'']) w2)))
          else (Inr (), w1))"

text \<open>
  \<open>set(xs).difference(ys)\<close>, as the loop over it sees it: the elements of \<open>xs\<close> that
  are not in \<open>ys\<close>, each once, in the interpreter's order.
\<close>

definition difference :: "world \<Rightarrow> string list \<Rightarrow> string list \<Rightarrow> string list" where
  "difference w xs ys = set_order w (remdups [x \<leftarrow> xs. x \<notin> set ys])"

definition print_line :: "string \<Rightarrow> world \<Rightarrow> world" where
  "print_line s w = w\<lparr>stdout := stdout w @ s @ [LF]\<rparr>"

fun print_each :: "string list \<Rightarrow> world \<Rightarrow> world" where
  "print_each [] w = w"
| "print_each (line # ls) w = print_each ls (print_line line w)"

definition report :: "string \<Rightarrow> string list \<Rightarrow> world \<Rightarrow> world" where
  "report title ls w =
     (if ls \<noteq> [] then print_each ls (print_line (replicate 40 CHR ''-'') (print_line (LF # title) w))
      else w)"

definition comp_cmd :: "unit io" where
  "comp_cmd w =
     with_open open_r ext_file (\<lambda>file w1.
       case file_readlines file w1 of (ls, w2) \<Rightarrow>
       let extensions_file = map strip ls in
       case popen_readlines list_extensions w2 of
         (Inl e, w3) \<Rightarrow> (Inl e, w3)
       | (Inr out, w3) \<Rightarrow>
           let extensions_code = map strip out in
           (Inr (),
            report ''* FILE'' (difference w3 extensions_file extensions_code)
              (report ''* CODE'' (difference w3 extensions_code extensions_file) w3))) w"

fun run_each :: "string list list \<Rightarrow> unit io" where
  "run_each [] w = (Inr (), w)"
| "run_each (args # rest) w =
     (case subprocess_run args w of
        (Inl e, w1) \<Rightarrow> (Inl e, w1)
      | (Inr status, w1) \<Rightarrow> run_each rest w1)"

definition install :: "unit io" where
  "install w =
     with_open open_r ext_file (\<lambda>file w1.
       case popen_readlines list_extensions w1 of
         (Inl e, w2) \<Rightarrow> (Inl e, w2)
       | (Inr out, w2) \<Rightarrow>
           let extensions_code = map strip out in
           case file_readlines file w2 of (ls, w3) \<Rightarrow>
           let extensions_file = map strip ls in
           run_each
             (map (\<lambda>line. [''code'', ''--install-extension'', line])
                (difference w3 extensions_file extensions_code)) w3) w"

definition uninstall :: "unit io" where
  "uninstall w =
     with_open open_r ext_file (\<lambda>file w1.
       case popen_readlines list_extensions w1 of
         (Inl e, w2) \<Rightarrow> (Inl e, w2)
       | (Inr out, w2) \<Rightarrow>
           let extensions_code = map strip out in
           case file_readlines file w2 of (ls, w3) \<Rightarrow>
           let extensions_file = map strip ls in
           run_each
             (map (\<lambda>line. [''code'', ''--uninstall-extension'', line])
                (difference w3 extensions_code extensions_file)) w3) w"

section \<open>The command line\<close>

definition usage_options :: "string list" where
  "usage_options =
     ['''',
      ''OPTION'',
      ''    backup     Backup extensions list to vscode-extension.txt'',
      ''               and settings to vscode-settings.jsonc'',
      '''',
      ''    comp       Compare list between vscode-extensions.txt file and system'',
      ''    install    Install extensions from vscode-extensions.txt'',
      ''    uninstall  Uninstall extensions from vscode-extensions.txt'',
      '''',
      ''    diff       Compare vscode-settings.jsonc and system's settings.json'',
      ''    restore    Restore vscode-settings.jsonc file to system's settings.json'']"

text \<open>The text of the second \<open>print\<close> of \<open>man\<close>: the lines above, each ended by \<open>\n\<close>.\<close>

definition usage_text :: string where
  "usage_text = concat (map (\<lambda>l. l @ [LF]) usage_options)"

definition man :: "string \<Rightarrow> unit io" where
  "man argv0 w =
     (Inr (), print_line usage_text (print_line (''Usage: '' @ argv0 @ '' [OPTION]'') w))"

definition FUNCTIONS :: "(string \<times> unit io) list" where
  "FUNCTIONS =
     [(''backup'', backup), (''diff'', diff), (''comp'', comp_cmd),
      (''restore'', restore), (''install'', install), (''uninstall'', uninstall)]"

text \<open>
  The entry point, for \<open>sys.argv = argv0 # args\<close>. The flag is \<open>None\<close> when the
  module is loaded and is set from the platform first.
\<close>

definition detect :: "world \<Rightarrow> world" where
  "detect w =
     w\<lparr>IS_WINDOWS :=
         (if prefix ''linux'' (platform w) then Some False
          else if prefix ''win32'' (platform w) then Some True
          else None)\<rparr>"

definition main :: "string \<Rightarrow> string list \<Rightarrow> unit io" where
  "main argv0 args w =
     (let w1 = detect w in
      if length (argv0 # args) = 2 then
        (case map_of FUNCTIONS (args ! 0) of
           Some f \<Rightarrow> f w1
         | None \<Rightarrow> man argv0 w1)
      else man argv0 w1)"

text \<open>The exit status of the process: 1 after an uncaught exception, 0 otherwise.\<close>

definition exit_code :: "(error + unit) \<times> world \<Rightarrow> int" where
  "exit_code r = (case fst r of Inl e \<Rightarrow> 1 | Inr u \<Rightarrow> 0)"

lemma exit_code_Inr: "exit_code (Inr u, w) = 0"
  by (simp add: exit_code_def)

section \<open>The entry point and the platform flag\<close>

lemma detect_fields [simp]:
  "files (detect w) = files w" "dirs (detect w) = dirs w" "events (detect w) = events w"
  "stdout (detect w) = stdout w" "cwd (detect w) = cwd w" "home (detect w) = home w"
  "APPDATA (detect w) = APPDATA w" "platform (detect w) = platform w" "clock (detect w) = clock w"
  "code_installed (detect w) = code_installed w" "code_extensions (detect w) = code_extensions w"
  "exit_status (detect w) = exit_status w" "set_order (detect w) = set_order w"
  "arg_max (detect w) = arg_max w"
  by (simp_all add: detect_def)

lemma map_of_FUNCTIONS_None:
  "c \<notin> {''backup'', ''comp'', ''install'', ''uninstall'', ''diff'', ''restore''} \<Longrightarrow>
   map_of FUNCTIONS c = None"
  by (simp add: FUNCTIONS_def)

lemma map_of_FUNCTIONS_Some [simp]:
  "map_of FUNCTIONS ''backup'' = Some backup"
  "map_of FUNCTIONS ''diff'' = Some diff"
  "map_of FUNCTIONS ''comp'' = Some comp_cmd"
  "map_of FUNCTIONS ''restore'' = Some restore"
  "map_of FUNCTIONS ''install'' = Some install"
  "map_of FUNCTIONS ''uninstall'' = Some uninstall"
  by (simp_all add: FUNCTIONS_def)

lemma main_command [simp]:
  "main argv0 [''backup''] w = backup (detect w)"
  "main argv0 [''diff''] w = diff (detect w)"
  "main argv0 [''comp''] w = comp_cmd (detect w)"
  "main argv0 [''restore''] w = restore (detect w)"
  "main argv0 [''install''] w = install (detect w)"
  "main argv0 [''uninstall''] w = uninstall (detect w)"
  by (simp_all add: main_def)

lemma main_man:
  assumes "\<not> (length args = 1 \<and> args ! 0 \<in> {''backup'', ''comp'', ''install'', ''uninstall'', ''diff'', ''restore''})"
  shows "main argv0 args w = man argv0 (detect w)"
proof (cases "length args = 1")
  case True
  with assms have "map_of FUNCTIONS (args ! 0) = None"
    by (intro map_of_FUNCTIONS_None) simp
  with True show ?thesis by (simp add: main_def)
next
  case False
  then show ?thesis by (simp add: main_def)
qed

section \<open>Paths and outcomes of restore and diff\<close>

definition live_of :: "world \<Rightarrow> pypath \<Rightarrow> path" where
  "live_of w p = resolve w (expanduser w p)"

definition snapshot_of :: "world \<Rightarrow> path" where
  "snapshot_of w = cwd w @ [snapshot_name w]"

definition backup_of :: "world \<Rightarrow> path" where
  "backup_of w = cwd w @ [''vscode-settings.jsonc'']"

lemma snapshot_name_neq [simp]:
  "snapshot_name w \<noteq> ''vscode-settings.jsonc''" "snapshot_name w \<noteq> ''settings.json''"
  "''vscode-settings.jsonc'' \<noteq> snapshot_name w" "''settings.json'' \<noteq> snapshot_name w"
  by (simp_all add: snapshot_name_def)

lemma bind_p_cases:
  assumes "bind_p w = Inr (Some p)"
  shows "(prefix ''linux'' (platform w) \<and> p = Rel [''~'', ''.config'', ''Code'', ''User'', ''settings.json'']) \<or>
         (\<not> prefix ''linux'' (platform w) \<and> truthy (IS_WINDOWS w) \<and>
          (\<exists>a. APPDATA w = Some a \<and> p = Abs (a @ [''Code'', ''User'', ''settings.json''])))"
  using assms
  by (auto simp: bind_p_def settings_json_def split: if_splits option.splits)

lemma bind_p_last:
  assumes "bind_p w = Inr (Some p)"
  shows "last (resolve w p) = ''settings.json''" "last (live_of w p) = ''settings.json''"
  using bind_p_cases [OF assms]
  by (auto simp: resolve_def live_of_def expanduser_def)

lemma paths_distinct:
  assumes "bind_p w = Inr (Some p)"
  shows "live_of w p \<noteq> snapshot_of w" "live_of w p \<noteq> backup_of w"
    "resolve w p \<noteq> snapshot_of w" "resolve w p \<noteq> backup_of w"
    "snapshot_of w \<noteq> backup_of w"
proof -
  have l: "last (snapshot_of w) = snapshot_name w" "last (backup_of w) = ''vscode-settings.jsonc''"
    by (simp_all add: snapshot_of_def backup_of_def)
  show "live_of w p \<noteq> snapshot_of w" "live_of w p \<noteq> backup_of w"
    "resolve w p \<noteq> snapshot_of w" "resolve w p \<noteq> backup_of w"
    using bind_p_last [OF assms] l by (metis snapshot_name_neq(2), auto)
  show "snapshot_of w \<noteq> backup_of w"
    by (simp add: snapshot_of_def backup_of_def)
qed

definition snapshot_events :: "world \<Rightarrow> pypath \<Rightarrow> string \<Rightarrow> event list" where
  "snapshot_events w p s =
     [OpenR (live_of w p), OpenW (snapshot_of w), Read (live_of w p),
      Write (snapshot_of w) s, Close (snapshot_of w), Close (live_of w p)]"

definition overwrite_events :: "world \<Rightarrow> pypath \<Rightarrow> string \<Rightarrow> event list" where
  "overwrite_events w p s =
     [OpenR (backup_of w), OpenW (resolve w p), Read (backup_of w),
      Write (resolve w p) s, Close (resolve w p), Close (backup_of w)]"

lemmas io_defs = with_open_def open_r_def open_w_def copy_text_def read_text_def write_text_def
  close_def emit_def content_def Let_def

lemma resolve_Rel_single [simp]: "resolve w (Rel [n]) = cwd w @ [n]"
  by (simp add: resolve_def)

lemma resolve_upd [simp]:
  "resolve (w\<lparr>events := ev\<rparr>) p = resolve w p"
  "resolve (w\<lparr>files := fs\<rparr>) p = resolve w p"
  by (cases p; simp add: resolve_def)+

lemma restore_no_path:
  "bind_p w = Inl e \<Longrightarrow> restore w = (Inl e, w)"
  "bind_p w = Inr None \<Longrightarrow> restore w = (Inl (UnboundLocalError ''p''), w)"
  by (simp_all add: restore_def)

lemma restore_no_live:
  assumes "bind_p w = Inr (Some p)" "files w (live_of w p) = None"
  shows "restore w = (Inl (FileNotFoundError (live_of w p)), w)"
  using assms by (simp add: restore_def io_defs live_of_def)

lemma restore_no_cwd:
  assumes "bind_p w = Inr (Some p)" "files w (live_of w p) = Some A" "cwd w \<notin> dirs w"
  shows "restore w = (Inl (FileNotFoundError (snapshot_of w)),
           w\<lparr>events := events w @ [OpenR (live_of w p), Close (live_of w p)]\<rparr>)"
  using assms by (simp add: restore_def io_defs live_of_def snapshot_of_def)

lemma restore_no_backup:
  assumes "bind_p w = Inr (Some p)" "files w (live_of w p) = Some A" "cwd w \<in> dirs w"
    "files w (backup_of w) = None"
  shows "restore w = (Inl (FileNotFoundError (backup_of w)),
           w\<lparr>files := (files w)(snapshot_of w \<mapsto> universal_newlines A),
             events := events w @ snapshot_events w p (universal_newlines A)\<rparr>)"
  using assms paths_distinct [OF assms(1)]
  by (simp add: restore_def io_defs live_of_def snapshot_of_def backup_of_def snapshot_events_def)

lemma restore_no_dir:
  assumes "bind_p w = Inr (Some p)" "files w (live_of w p) = Some A" "cwd w \<in> dirs w"
    "files w (backup_of w) = Some B" "butlast (resolve w p) \<notin> dirs w"
  shows "restore w = (Inl (FileNotFoundError (resolve w p)),
           w\<lparr>files := (files w)(snapshot_of w \<mapsto> universal_newlines A),
             events := events w @ snapshot_events w p (universal_newlines A) @
               [OpenR (backup_of w), Close (backup_of w)]\<rparr>)"
  using assms paths_distinct [OF assms(1)]
  by (simp add: restore_def io_defs live_of_def snapshot_of_def backup_of_def snapshot_events_def)

lemma restore_done:
  assumes "bind_p w = Inr (Some p)" "files w (live_of w p) = Some A" "cwd w \<in> dirs w"
    "files w (backup_of w) = Some B" "butlast (resolve w p) \<in> dirs w"
  shows "restore w = (Inr (),
           w\<lparr>files := (files w)(snapshot_of w \<mapsto> universal_newlines A,
                                 resolve w p \<mapsto> universal_newlines B),
             events := events w @ snapshot_events w p (universal_newlines A) @
               overwrite_events w p (universal_newlines B)\<rparr>)"
  using assms paths_distinct [OF assms(1)]
  by (simp add: restore_def io_defs live_of_def snapshot_of_def backup_of_def snapshot_events_def
      overwrite_events_def)

lemma detect_paths [simp]:
  "resolve (detect w) p = resolve w p" "expanduser (detect w) p = expanduser w p"
  "live_of (detect w) p = live_of w p" "snapshot_of (detect w) = snapshot_of w"
  "backup_of (detect w) = backup_of w" "snapshot_name (detect w) = snapshot_name w"
  by (simp_all add: resolve_def expanduser_def live_of_def snapshot_of_def backup_of_def
      snapshot_name_def split: pypath.splits list.splits)

lemma detect_events [simp]:
  "snapshot_events (detect w) p s = snapshot_events w p s"
  "overwrite_events (detect w) p s = overwrite_events w p s"
  by (simp_all add: snapshot_events_def overwrite_events_def)

lemma detect_unsupported:
  assumes "\<not> prefix ''linux'' (platform w)" "\<not> prefix ''win32'' (platform w)"
  shows "bind_p (detect w) = Inr None"
  using assms by (simp add: bind_p_def detect_def truthy_def)

lemma bind_p_upd [simp]:
  "bind_p (w\<lparr>events := ev\<rparr>) = bind_p w"
  "bind_p (w\<lparr>files := fs\<rparr>) = bind_p w"
  "bind_p (w\<lparr>stdout := s\<rparr>) = bind_p w"
  by (simp_all add: bind_p_def)

lemma expanduser_upd [simp]:
  "expanduser (w\<lparr>events := ev\<rparr>) p = expanduser w p"
  "expanduser (w\<lparr>files := fs\<rparr>) p = expanduser w p"
  "expanduser (w\<lparr>stdout := s\<rparr>) p = expanduser w p"
  by (simp_all add: expanduser_def split: pypath.splits list.splits)

lemma diff_no_backup:
  "files w (backup_of w) = None \<Longrightarrow> diff w = (Inl (FileNotFoundError (backup_of w)), w)"
  by (simp add: diff_def io_defs backup_of_def)

lemma diff_no_path:
  assumes "files w (backup_of w) = Some b"
  shows "bind_p w = Inr None \<Longrightarrow>
         diff w = (Inl (UnboundLocalError ''p''),
                   w\<lparr>events := events w @ [OpenR (backup_of w), Close (backup_of w)]\<rparr>)"
    and "bind_p w = Inl e \<Longrightarrow>
         diff w = (Inl e, w\<lparr>events := events w @ [OpenR (backup_of w), Close (backup_of w)]\<rparr>)"
  using assms by (simp_all add: diff_def io_defs backup_of_def)

section \<open>Example machines\<close>

definition linux_box :: world where
  "linux_box =
     \<lparr>platform = ''linux'', IS_WINDOWS = None, home = [''home'', ''u''], APPDATA = None,
      cwd = [''home'', ''u'', ''dotfiles''], clock = 1700000000,
      files = [[''home'', ''u'', ''.config'', ''Code'', ''User'', ''settings.json''] \<mapsto> ''A'',
               [''home'', ''u'', ''dotfiles'', ''vscode-settings.jsonc''] \<mapsto> ''B'',
               [''home'', ''u'', ''dotfiles'', ''vscode-extensions.txt''] \<mapsto>
                  ''a.b '' @ [LF] @ ''c.d'' @ [LF] @ ''c.d'' @ [LF]],
      dirs = {[''home'', ''u'', ''dotfiles''], [''home'', ''u'', ''.config'', ''Code'', ''User'']},
      code_installed = True, code_extensions = ''a.b'' @ [LF] @ ''e.f'' @ [CR, LF],
      exit_status = (\<lambda>args. 1), arg_max = 131072, set_order = rev, stdout = [], events = []\<rparr>"

definition other_box :: world where
  "other_box = linux_box\<lparr>platform := ''darwin''\<rparr>"

text \<open>
  What restore copies is the text as text mode reads it: a content without
  carriage returns is copied as it is, and reading the copy again in text mode
  gives the same text as reading the original.
\<close>

lemma universal_newlines_plain: "CR \<notin> set s \<Longrightarrow> universal_newlines s = s"
  by (induction s rule: universal_newlines.induct) auto

lemma universal_newlines_no_CR: "CR \<notin> set (universal_newlines s)"
  by (induction s rule: universal_newlines.induct) (auto simp: CR_def LF_def)

lemma universal_newlines_idem: "universal_newlines (universal_newlines s) = universal_newlines s"
  by (rule universal_newlines_plain) (rule universal_newlines_no_CR)

lemma restore_outcomes:
  obtains
    (no_path) e where "bind_p (detect w) = Inl e" "restore (detect w) = (Inl e, detect w)"
  | (unbound) "bind_p (detect w) = Inr None"
      "restore (detect w) = (Inl (UnboundLocalError ''p''), detect w)"
  | (no_live) p where "bind_p (detect w) = Inr (Some p)" "files w (live_of w p) = None"
      "restore (detect w) = (Inl (FileNotFoundError (live_of w p)), detect w)"
  | (no_cwd) p A where "bind_p (detect w) = Inr (Some p)" "files w (live_of w p) = Some A"
      "cwd w \<notin> dirs w"
      "restore (detect w) = (Inl (FileNotFoundError (snapshot_of w)),
         (detect w)\<lparr>events := events w @ [OpenR (live_of w p), Close (live_of w p)]\<rparr>)"
  | (no_backup) p A where "bind_p (detect w) = Inr (Some p)" "files w (live_of w p) = Some A"
      "cwd w \<in> dirs w" "files w (backup_of w) = None"
      "restore (detect w) = (Inl (FileNotFoundError (backup_of w)),
         (detect w)\<lparr>files := (files w)(snapshot_of w \<mapsto> universal_newlines A),
           events := events w @ snapshot_events w p (universal_newlines A)\<rparr>)"
  | (no_dir) p A B where "bind_p (detect w) = Inr (Some p)" "files w (live_of w p) = Some A"
      "cwd w \<in> dirs w" "files w (backup_of w) = Some B" "butlast (resolve w p) \<notin> dirs w"
      "restore (detect w) = (Inl (FileNotFoundError (resolve w p)),
         (detect w)\<lparr>files := (files w)(snapshot_of w \<mapsto> universal_newlines A),
           events := events w @ snapshot_events w p (universal_newlines A) @
             [OpenR (backup_of w), Close (backup_of w)]\<rparr>)"
  | (restored) p A B where "bind_p (detect w) = Inr (Some p)" "files w (live_of w p) = Some A"
      "cwd w \<in> dirs w" "files w (backup_of w) = Some B" "butlast (resolve w p) \<in> dirs w"
      "restore (detect w) = (Inr (),
         (detect w)\<lparr>files := (files w)(snapshot_of w \<mapsto> universal_newlines A,
                                        resolve w p \<mapsto> universal_newlines B),
           events := events w @ snapshot_events w p (universal_newlines A) @
             overwrite_events w p (universal_newlines B)\<rparr>)"
proof (cases "bind_p (detect w)")
  case (Inl e)
  then show ?thesis using restore_no_path(1) [of "detect w" e] no_path by blast
next
  case (Inr po)
  show ?thesis
  proof (cases po)
    case None
    with Inr show ?thesis using restore_no_path(2) [of "detect w"] unbound by blast
  next
    case (Some p)
    with Inr have bp: "bind_p (detect w) = Inr (Some p)" by simp
    show ?thesis
    proof (cases "files w (live_of w p)")
      case None
      then show ?thesis using restore_no_live [OF bp] no_live [OF bp] by simp
    next
      case (Some A)
      note live = this
      show ?thesis
      proof (cases "cwd w \<in> dirs w")
        case False
        then show ?thesis using restore_no_cwd [OF bp, of A] no_cwd [OF bp live] live by simp
      next
        case True
        note cwd = this
        show ?thesis
        proof (cases "files w (backup_of w)")
          case None
          then show ?thesis
            using restore_no_backup [OF bp, of A] no_backup [OF bp live cwd] live cwd by simp
        next
          case (Some B)
          note bk = this
          show ?thesis
          proof (cases "butlast (resolve w p) \<in> dirs w")
            case False
            then show ?thesis
              using restore_no_dir [OF bp, of A B] no_dir [OF bp live cwd bk] live cwd bk by simp
          next
            case True
            then show ?thesis
              using restore_done [OF bp, of A B] restored [OF bp live cwd bk] live cwd bk by simp
          qed
        qed
      qed
    qed
  qed
qed


definition linux_tilde_box :: world where
  "linux_tilde_box =
     linux_box\<lparr>dirs := insert [''home'', ''u'', ''dotfiles'', ''~'', ''.config'', ''Code'', ''User'']
                              (dirs linux_box)\<rparr>"

definition no_backup_box :: world where
  "no_backup_box =
     linux_box\<lparr>files := (files linux_box)([''home'', ''u'', ''dotfiles'', ''vscode-settings.jsonc''] := None)\<rparr>"

definition windows_box :: world where
  "windows_box =
     \<lparr>platform = ''win32'', IS_WINDOWS = None, home = [''C:'', ''Users'', ''u''],
      APPDATA = Some [''C:'', ''Users'', ''u'', ''AppData'', ''Roaming''],
      cwd = [''C:'', ''Users'', ''u'', ''dotfiles''], clock = 1700000000,
      files = [[''C:'', ''Users'', ''u'', ''AppData'', ''Roaming'', ''Code'', ''User'', ''settings.json''] \<mapsto> ''A'',
               [''C:'', ''Users'', ''u'', ''dotfiles'', ''vscode-settings.jsonc''] \<mapsto> ''B'',
               [''C:'', ''Users'', ''u'', ''dotfiles'', ''vscode-extensions.txt''] \<mapsto> ''a.b'' @ [LF]],
      dirs = {[''C:'', ''Users'', ''u'', ''dotfiles''],
              [''C:'', ''Users'', ''u'', ''AppData'', ''Roaming'', ''Code'', ''User'']},
      code_installed = True, code_extensions = ''a.b'' @ [CR, LF],
      exit_status = (\<lambda>args. 0), arg_max = 32767, set_order = (\<lambda>l. l), stdout = [], events = []\<rparr>"

lemma str_int_clock: "str_int 1700000000 = ''1700000000''"
  by (simp add: str_int_def str_nat.simps digit_def)

lemmas box_defs = linux_box_def linux_tilde_box_def no_backup_box_def windows_box_def other_box_def

lemma linux_p [simp]:
  "bind_p (detect linux_box) = Inr (Some (Rel [''~'', ''.config'', ''Code'', ''User'', ''settings.json'']))"
  "bind_p (detect linux_tilde_box) = Inr (Some (Rel [''~'', ''.config'', ''Code'', ''User'', ''settings.json'']))"
  "bind_p (detect no_backup_box) = Inr (Some (Rel [''~'', ''.config'', ''Code'', ''User'', ''settings.json'']))"
  by (simp_all add: bind_p_def box_defs settings_json_def)

lemma windows_p [simp]:
  "bind_p (detect windows_box) =
     Inr (Some (Abs [''C:'', ''Users'', ''u'', ''AppData'', ''Roaming'', ''Code'', ''User'', ''settings.json'']))"
  by (simp add: bind_p_def box_defs settings_json_def detect_def truthy_def)

lemma restore_windows_box:
  "main ''vscode-env-manager.py'' [''restore''] windows_box =
     (Inr (),
      windows_box\<lparr>IS_WINDOWS := Some True,
        files := (files windows_box)
          ([''C:'', ''Users'', ''u'', ''dotfiles'', ''vscode-settings-1700000000.jsonc''] \<mapsto> ''A'',
           [''C:'', ''Users'', ''u'', ''AppData'', ''Roaming'', ''Code'', ''User'', ''settings.json''] \<mapsto> ''B''),
        events :=
          [OpenR [''C:'', ''Users'', ''u'', ''AppData'', ''Roaming'', ''Code'', ''User'', ''settings.json''],
           OpenW [''C:'', ''Users'', ''u'', ''dotfiles'', ''vscode-settings-1700000000.jsonc''],
           Read [''C:'', ''Users'', ''u'', ''AppData'', ''Roaming'', ''Code'', ''User'', ''settings.json''],
           Write [''C:'', ''Users'', ''u'', ''dotfiles'', ''vscode-settings-1700000000.jsonc''] ''A'',
           Close [''C:'', ''Users'', ''u'', ''dotfiles'', ''vscode-settings-1700000000.jsonc''],
           Close [''C:'', ''Users'', ''u'', ''AppData'', ''Roaming'', ''Code'', ''User'', ''settings.json''],
           OpenR [''C:'', ''Users'', ''u'', ''dotfiles'', ''vscode-settings.jsonc''],
           OpenW [''C:'', ''Users'', ''u'', ''AppData'', ''Roaming'', ''Code'', ''User'', ''settings.json''],
           Read [''C:'', ''Users'', ''u'', ''dotfiles'', ''vscode-settings.jsonc''],
           Write [''C:'', ''Users'', ''u'', ''AppData'', ''Roaming'', ''Code'', ''User'', ''settings.json''] ''B'',
           Close [''C:'', ''Users'', ''u'', ''AppData'', ''Roaming'', ''Code'', ''User'', ''settings.json''],
           Close [''C:'', ''Users'', ''u'', ''dotfiles'', ''vscode-settings.jsonc'']]\<rparr>)"
proof -
  let ?p = "Abs [''C:'', ''Users'', ''u'', ''AppData'', ''Roaming'', ''Code'', ''User'', ''settings.json'']"
  have t: "restore (detect windows_box) = (Inr (),
         (detect windows_box)\<lparr>files := (files (detect windows_box))
              (snapshot_of (detect windows_box) \<mapsto> universal_newlines ''A'',
               resolve (detect windows_box) ?p \<mapsto> universal_newlines ''B''),
           events := events (detect windows_box) @
             snapshot_events (detect windows_box) ?p (universal_newlines ''A'') @
             overwrite_events (detect windows_box) ?p (universal_newlines ''B'')\<rparr>)"
    by (rule restore_done [OF windows_p])
       (simp_all add: box_defs live_of_def backup_of_def resolve_def expanduser_def)
  show ?thesis
    unfolding main_command t
    by (simp add: box_defs snapshot_of_def snapshot_name_def str_int_clock resolve_def
        snapshot_events_def overwrite_events_def live_of_def expanduser_def backup_of_def
        detect_def CR_def LF_def)
qed

section \<open>The extension lists and what the three commands do with them\<close>

text \<open>
  \<open>file_lines\<close> and \<open>code_lines\<close> are the lines as \<open>readlines()\<close> returns them, from
  the recorded file (text mode) and from the pipe of the list-extensions command;
  \<open>extensions_file\<close> and \<open>extensions_code\<close> are the lists the source builds from
  them with \<open>strip()\<close>. \<open>section_text\<close> is one section of the report as the
  specification words it: nothing when there are no lines, else an empty line, the
  title, a rule of forty dashes and the lines.
\<close>

definition ext_path :: "world \<Rightarrow> path" where
  "ext_path w = cwd w @ [''vscode-extensions.txt'']"

definition file_lines :: "world \<Rightarrow> string list" where
  "file_lines w = readlines (universal_newlines (content w (ext_path w)))"

definition code_lines :: "world \<Rightarrow> string list" where
  "code_lines w = readlines (listed w)"

definition extensions_file :: "world \<Rightarrow> string list" where
  "extensions_file w = map strip (file_lines w)"

definition extensions_code :: "world \<Rightarrow> string list" where
  "extensions_code w = map strip (code_lines w)"

definition section_text :: "string \<Rightarrow> string list \<Rightarrow> string" where
  "section_text title ls =
     (if ls = [] then []
      else [LF] @ title @ [LF] @ replicate 40 CHR ''-'' @ [LF] @ concat (map (\<lambda>l. l @ [LF]) ls))"

lemma print_each_eq:
  "print_each ls w = w\<lparr>stdout := stdout w @ concat (map (\<lambda>l. l @ [LF]) ls)\<rparr>"
  by (induction ls arbitrary: w) (simp_all add: print_line_def)

lemma report_eq: "report title ls w = w\<lparr>stdout := stdout w @ section_text title ls\<rparr>"
  by (simp add: report_def section_text_def print_each_eq print_line_def)

lemma difference_upd [simp]:
  "difference (w\<lparr>events := ev\<rparr>) xs ys = difference w xs ys"
  "difference (w\<lparr>stdout := s\<rparr>) xs ys = difference w xs ys"
  "difference (w\<lparr>files := fs\<rparr>) xs ys = difference w xs ys"
  "difference (detect w) xs ys = difference w xs ys"
  by (simp_all add: difference_def)

lemma difference_set:
  assumes "\<forall>l. mset (set_order w l) = mset l"
  shows "distinct (difference w xs ys)" "set (difference w xs ys) = set xs - set ys"
proof -
  let ?d = "remdups [x \<leftarrow> xs. x \<notin> set ys]"
  from assms have m: "mset (difference w xs ys) = mset ?d"
    by (simp add: difference_def)
  have "distinct ?d" by simp
  with m show "distinct (difference w xs ys)"
    by (metis mset_eq_imp_distinct_iff)
  from m have "set (difference w xs ys) = set ?d"
    by (rule mset_eq_setD)
  then show "set (difference w xs ys) = set xs - set ys" by auto
qed

lemma listed_detect [simp]: "listed (detect w) = listed w"
  by (simp add: listed_def)

lemma ext_detect [simp]:
  "ext_path (detect w) = ext_path w" "file_lines (detect w) = file_lines w"
  "code_lines (detect w) = code_lines w" "extensions_file (detect w) = extensions_file w"
  "extensions_code (detect w) = extensions_code w"
  by (simp_all add: ext_path_def file_lines_def code_lines_def extensions_file_def
      extensions_code_def content_def)

lemma comp_cmd_eq:
  assumes "files w (ext_path w) = Some fc" "starts w"
  shows "comp_cmd w =
     (Inr (),
      w\<lparr>stdout := stdout w @
           section_text ''* CODE'' (difference w (extensions_code w) (extensions_file w)) @
           section_text ''* FILE'' (difference w (extensions_file w) (extensions_code w)),
        events := events w @
           [OpenR (ext_path w), Read (ext_path w),
            Run list_extensions (truthy (IS_WINDOWS w)), Close (ext_path w)]\<rparr>)"
  using assms
  by (simp add: comp_cmd_def io_defs ext_file_def ext_path_def file_readlines_def
      popen_readlines_def starts_def launch_def report_eq extensions_file_def
      extensions_code_def file_lines_def code_lines_def listed_def)

lemma starts_upd [simp]:
  "starts (w\<lparr>events := ev\<rparr>) = starts w"
  by (simp add: starts_def)

text \<open>
  The loop of install and uninstall, given that the editor's command can be started:
  a command is \<open>refused\<close> when one of its arguments holds a NUL character or is too
  long; the loop runs the commands before the first refused one and ends with the
  exception of that one, or runs them all.
\<close>

definition refused :: "world \<Rightarrow> string list \<Rightarrow> bool" where
  "refused w args = (has_nul args \<or> too_long w args)"

definition outcome :: "world \<Rightarrow> string list list \<Rightarrow> error + unit" where
  "outcome w cmds =
     (case dropWhile (\<lambda>args. \<not> refused w args) cmds of
        [] \<Rightarrow> Inr ()
      | args # rest \<Rightarrow> Inl (if has_nul args then ValueError else OSError))"

definition install_cmd :: "string \<Rightarrow> string list" where
  "install_cmd line = [''code'', ''--install-extension'', line]"

definition uninstall_cmd :: "string \<Rightarrow> string list" where
  "uninstall_cmd line = [''code'', ''--uninstall-extension'', line]"

lemma refused_upd [simp]:
  "refused (w\<lparr>events := ev\<rparr>) args = refused w args"
  "refused (detect w) args = refused w args"
  by (simp_all add: refused_def too_long_def)

lemma outcome_upd [simp]:
  "outcome (w\<lparr>events := ev\<rparr>) cmds = outcome w cmds"
  "outcome (detect w) cmds = outcome w cmds"
  by (simp_all add: outcome_def)

lemma outcome_all: "\<forall>args\<in>set cmds. \<not> refused w args \<Longrightarrow> outcome w cmds = Inr ()"
proof -
  assume "\<forall>args\<in>set cmds. \<not> refused w args"
  then have d: "dropWhile (\<lambda>args. \<not> refused w args) cmds = []" by simp
  show ?thesis unfolding outcome_def d by simp
qed

lemma outcome_Inr:
  assumes "outcome w cmds = Inr u"
  shows "takeWhile (\<lambda>args. \<not> refused w args) cmds = cmds"
proof (cases "dropWhile (\<lambda>args. \<not> refused w args) cmds")
  case Nil
  then have "\<forall>args\<in>set cmds. \<not> refused w args" by simp
  then show ?thesis by (simp only: takeWhile_eq_all_conv)
next
  case (Cons args rest)
  with assms show ?thesis by (simp add: outcome_def)
qed

lemma run_each_eq:
  "starts w \<Longrightarrow>
   run_each cmds w =
     (outcome w cmds,
      w\<lparr>events := events w @
           map (\<lambda>args. Run args (truthy (IS_WINDOWS w)))
             (takeWhile (\<lambda>args. \<not> refused w args) cmds)\<rparr>)"
proof (induction cmds arbitrary: w)
  case Nil
  then show ?case by (simp add: outcome_def)
next
  case (Cons args cmds)
  show ?case
  proof (cases "refused w args")
    case True
    with Cons.prems show ?thesis
      by (auto simp: subprocess_run_def outcome_def refused_def)
  next
    case False
    let ?w1 = "w\<lparr>events := events w @ [Run args (truthy (IS_WINDOWS w))]\<rparr>"
    from Cons.prems have "starts ?w1" by simp
    note IH = Cons.IH [OF this]
    from False Cons.prems have step: "subprocess_run args w = (Inr (exit_status w args), ?w1)"
      by (simp add: subprocess_run_def refused_def launch_def emit_def)
    from False have out: "outcome w (args # cmds) = outcome w cmds"
      by (simp add: outcome_def)
    show ?thesis
      unfolding run_each.simps step out using IH False by simp
  qed
qed

lemma install_eq:
  assumes "files w (ext_path w) = Some fc" "starts w"
  shows "install w =
     (outcome w (map install_cmd (difference w (extensions_file w) (extensions_code w))),
      w\<lparr>events := events w @
           [OpenR (ext_path w), Run list_extensions (truthy (IS_WINDOWS w)), Read (ext_path w)] @
           map (\<lambda>args. Run args (truthy (IS_WINDOWS w)))
             (takeWhile (\<lambda>args. \<not> refused w args)
                (map install_cmd (difference w (extensions_file w) (extensions_code w)))) @
           [Close (ext_path w)]\<rparr>)"
proof -
  have cmds: "(\<lambda>line. [''code'', ''--install-extension'', line]) = install_cmd"
    by (simp add: install_cmd_def fun_eq_iff)
  show ?thesis
    using assms unfolding install_def cmds
    by (simp add: io_defs ext_file_def ext_path_def file_readlines_def
        popen_readlines_def launch_def run_each_eq extensions_file_def
        extensions_code_def file_lines_def code_lines_def listed_def)
qed

lemma uninstall_eq:
  assumes "files w (ext_path w) = Some fc" "starts w"
  shows "uninstall w =
     (outcome w (map uninstall_cmd (difference w (extensions_code w) (extensions_file w))),
      w\<lparr>events := events w @
           [OpenR (ext_path w), Run list_extensions (truthy (IS_WINDOWS w)), Read (ext_path w)] @
           map (\<lambda>args. Run args (truthy (IS_WINDOWS w)))
             (takeWhile (\<lambda>args. \<not> refused w args)
                (map uninstall_cmd (difference w (extensions_code w) (extensions_file w)))) @
           [Close (ext_path w)]\<rparr>)"
proof -
  have cmds: "(\<lambda>line. [''code'', ''--uninstall-extension'', line]) = uninstall_cmd"
    by (simp add: uninstall_cmd_def fun_eq_iff)
  show ?thesis
    using assms unfolding uninstall_def cmds
    by (simp add: io_defs ext_file_def ext_path_def file_readlines_def
        popen_readlines_def launch_def run_each_eq extensions_file_def
        extensions_code_def file_lines_def code_lines_def listed_def)
qed

lemma distinct_singleton_set:
  assumes "distinct xs" "set xs = {x}"
  shows "xs = [x]"
proof (cases xs)
  case Nil
  with assms show ?thesis by simp
next
  case (Cons y ys)
  with assms have "y = x" by auto
  moreover from Cons assms have "set ys \<subseteq> {x}" "x \<notin> set ys" using \<open>y = x\<close> by auto
  then have "ys = []" by (cases ys) auto
  ultimately show ?thesis using Cons by simp
qed

lemma linux_box_lists:
  "extensions_file linux_box = [''a.b'', ''c.d'', ''c.d'']"
  "extensions_code linux_box = [''a.b'', ''e.f'']"
  by (simp_all add: extensions_file_def extensions_code_def file_lines_def code_lines_def
      linux_box_def ext_path_def content_def listed_def readlines_def strip_def isspace_def
      LF_def CR_def)

lemma linux_box_ready:
  "\<forall>l. mset (set_order linux_box l) = mset l"
  "files linux_box (ext_path linux_box) = Some (''a.b '' @ [LF] @ ''c.d'' @ [LF] @ ''c.d'' @ [LF])"
  "starts (detect linux_box)"
  by (simp_all add: linux_box_def ext_path_def starts_def detect_def)

definition space_box :: world where
  "space_box =
     linux_box\<lparr>files := (files linux_box)
                   ([''home'', ''u'', ''dotfiles'', ''vscode-extensions.txt''] \<mapsto> ''a.b '' @ [LF]),
                code_extensions := ''a.b'' @ [LF]\<rparr>"

definition case_box :: world where
  "case_box =
     linux_box\<lparr>files := (files linux_box)
                   ([''home'', ''u'', ''dotfiles'', ''vscode-extensions.txt''] \<mapsto> ''A.b'' @ [LF]),
                code_extensions := ''a.b'' @ [LF]\<rparr>"

lemma space_box_lines:
  "file_lines space_box = [''a.b '' @ [LF]]" "code_lines space_box = [''a.b'' @ [LF]]"
  "extensions_file space_box = [''a.b'']" "extensions_code space_box = [''a.b'']"
  by (simp_all add: extensions_file_def extensions_code_def file_lines_def code_lines_def
      space_box_def linux_box_def ext_path_def content_def listed_def readlines_def strip_def
      isspace_def LF_def CR_def)

lemma case_box_lines:
  "file_lines case_box = [''A.b'' @ [LF]]" "code_lines case_box = [''a.b'' @ [LF]]"
  by (simp_all add: file_lines_def code_lines_def
      case_box_def linux_box_def ext_path_def content_def listed_def readlines_def
      LF_def CR_def)

lemma space_box_ready:
  "\<forall>l. mset (set_order space_box l) = mset l"
  "files space_box (ext_path space_box) = Some (''a.b '' @ [LF])"
  "starts (detect space_box)"
  by (simp_all add: space_box_def linux_box_def ext_path_def starts_def detect_def)

lemma case_box_ready:
  "\<forall>l. mset (set_order case_box l) = mset l"
  "files case_box (ext_path case_box) = Some (''A.b'' @ [LF])"
  "starts (detect case_box)"
  by (simp_all add: case_box_def linux_box_def ext_path_def starts_def detect_def)

lemma section_text_empty [simp]: "section_text title ls = [] \<longleftrightarrow> ls = []"
  by (simp add: section_text_def)

definition nul_box :: world where
  "nul_box =
     linux_box\<lparr>files := (files linux_box)
                   ([''home'', ''u'', ''dotfiles'', ''vscode-extensions.txt''] \<mapsto>
                      [CHR ''a'', CHR 0x00, CHR ''b'', LF] @ ''c.d'' @ [LF]),
                code_extensions := [], set_order := (\<lambda>l. l)\<rparr>"

definition nul_live_box :: world where
  "nul_live_box =
     linux_box\<lparr>files := (files linux_box)
                   ([''home'', ''u'', ''dotfiles'', ''vscode-extensions.txt''] \<mapsto> []),
                code_extensions := [CHR ''a'', CHR 0x00, CHR ''b'', LF] @ ''c.d'' @ [LF],
                set_order := (\<lambda>l. l)\<rparr>"

lemma nul_box_lists:
  "extensions_file nul_box = [[CHR ''a'', CHR 0x00, CHR ''b''], ''c.d'']"
  "extensions_code nul_box = []"
  "extensions_file nul_live_box = []"
  "extensions_code nul_live_box = [[CHR ''a'', CHR 0x00, CHR ''b''], ''c.d'']"
  by (simp_all add: extensions_file_def extensions_code_def file_lines_def code_lines_def
      nul_box_def nul_live_box_def linux_box_def ext_path_def content_def listed_def
      readlines_def strip_def isspace_def LF_def CR_def)

lemma nul_box_ready:
  "files nul_box (ext_path nul_box) = Some ([CHR ''a'', CHR 0x00, CHR ''b'', LF] @ ''c.d'' @ [LF])"
  "starts (detect nul_box)"
  "files nul_live_box (ext_path nul_live_box) = Some []"
  "starts (detect nul_live_box)"
  by (simp_all add: nul_box_def nul_live_box_def linux_box_def ext_path_def starts_def detect_def)

section \<open>What backup does to the files\<close>

lemma last_neq: "last xs \<noteq> last ys \<Longrightarrow> xs \<noteq> ys"
  by auto

lemma settings_json_last [simp]:
  "xs @ settings_json \<noteq> ys @ [''vscode-extensions.txt'']"
  "xs @ settings_json \<noteq> ys @ [''vscode-settings.jsonc'']"
  "xs @ ''.config'' # settings_json \<noteq> ys @ [''vscode-extensions.txt'']"
  "xs @ ''.config'' # settings_json \<noteq> ys @ [''vscode-settings.jsonc'']"
  by (rule last_neq, simp add: settings_json_def)+

lemmas settings_json_last_sym [simp] = settings_json_last [THEN not_sym]

definition copy_map :: "path \<Rightarrow> path \<Rightarrow> (path \<rightharpoonup> string) \<Rightarrow> (path \<rightharpoonup> string)" where
  "copy_map src dst fs = (case fs src of None \<Rightarrow> fs | Some c \<Rightarrow> fs(dst \<mapsto> c))"

lemma copy_map_idem: "src \<noteq> dst \<Longrightarrow> copy_map src dst (copy_map src dst fs) = copy_map src dst fs"
  by (auto simp: copy_map_def split: option.splits)

lemma copy_map_upd:
  "e \<noteq> src \<Longrightarrow> e \<noteq> dst \<Longrightarrow> (copy_map src dst fs)(e \<mapsto> v) = copy_map src dst (fs(e \<mapsto> v))"
  by (auto simp: copy_map_def split: option.splits)

text \<open>What backup does to the files, as a function of the machine and the files before.\<close>

definition settings_copied :: "world \<Rightarrow> (path \<rightharpoonup> string) \<Rightarrow> (path \<rightharpoonup> string)" where
  "settings_copied w fs =
     (if prefix ''linux'' (platform w)
      then copy_map (home w @ ''.config'' # settings_json) (cwd w @ [''vscode-settings.jsonc'']) fs
      else if truthy (IS_WINDOWS w) then
        (case APPDATA w of
           None \<Rightarrow> fs
         | Some a \<Rightarrow>
             if CHR '' '' \<in> set (win_str (a @ settings_json)) then fs
             else copy_map (a @ settings_json) (cwd w @ [''vscode-settings.jsonc'']) fs)
      else fs)"

definition backed_up :: "world \<Rightarrow> (path \<rightharpoonup> string) \<Rightarrow> (path \<rightharpoonup> string)" where
  "backed_up w fs =
     (if cwd w \<notin> dirs w then fs
      else if \<not> starts w then fs(cwd w @ [''vscode-extensions.txt''] \<mapsto> [])
      else settings_copied w (fs(cwd w @ [''vscode-extensions.txt''] \<mapsto> listed w)))"

lemma process_upd [simp]:
  "starts (w\<lparr>files := fs\<rparr>) = starts w"
  "listed (w\<lparr>files := fs\<rparr>) = listed w"
  "listed (w\<lparr>events := ev\<rparr>) = listed w"
  by (simp_all add: starts_def listed_def)

lemma backup_ext_step:
  "with_open open_w ext_file (\<lambda>file. run_into file list_extensions) w =
     (if cwd w \<notin> dirs w then (Inl (FileNotFoundError (cwd w @ [''vscode-extensions.txt''])), w)
      else if starts w then
        (Inr (exit_status w list_extensions),
         w\<lparr>files := (files w)(cwd w @ [''vscode-extensions.txt''] \<mapsto> listed w),
           events := events w @
             [OpenW (cwd w @ [''vscode-extensions.txt'']),
              Run list_extensions (truthy (IS_WINDOWS w)),
              Close (cwd w @ [''vscode-extensions.txt''])]\<rparr>)
      else
        (Inl (FileNotFoundError [''code'']),
         w\<lparr>files := (files w)(cwd w @ [''vscode-extensions.txt''] \<mapsto> []),
           events := events w @
             [OpenW (cwd w @ [''vscode-extensions.txt'']),
              Close (cwd w @ [''vscode-extensions.txt''])]\<rparr>))"
  by (simp add: io_defs run_into_def launch_def ext_file_def)

lemma files_copy_file:
  "files (copy_file src dst w) = (if butlast dst \<in> dirs w then copy_map src dst (files w) else files w)"
  by (simp add: copy_file_def copy_map_def split: option.splits)

lemma copy_file_frame [simp]:
  "cwd (copy_file src dst w) = cwd w" "dirs (copy_file src dst w) = dirs w"
  "platform (copy_file src dst w) = platform w" "home (copy_file src dst w) = home w"
  "APPDATA (copy_file src dst w) = APPDATA w"
  "code_installed (copy_file src dst w) = code_installed w"
  "code_extensions (copy_file src dst w) = code_extensions w"
  by (simp_all add: copy_file_def split: option.splits)

lemma backup_files: "files (snd (backup w)) = backed_up w (files w)"
  unfolding backup_def backup_ext_step
  by (simp add: emit_def files_copy_file backed_up_def settings_copied_def Let_def
      split: option.splits)

lemma backup_frame:
  "cwd (snd (backup w)) = cwd w" "dirs (snd (backup w)) = dirs w"
  "platform (snd (backup w)) = platform w" "home (snd (backup w)) = home w"
  "APPDATA (snd (backup w)) = APPDATA w" "code_installed (snd (backup w)) = code_installed w"
  "code_extensions (snd (backup w)) = code_extensions w"
  unfolding backup_def backup_ext_step
  by (simp_all add: emit_def Let_def split: option.splits)


lemma settings_copied_idem: "settings_copied w (settings_copied w fs) = settings_copied w fs"
  by (simp add: settings_copied_def copy_map_idem split: option.splits)

lemma settings_copied_upd:
  "(settings_copied w fs)(cwd w @ [''vscode-extensions.txt''] \<mapsto> v) =
     settings_copied w (fs(cwd w @ [''vscode-extensions.txt''] \<mapsto> v))"
  by (simp add: settings_copied_def copy_map_upd split: option.splits)

lemma backed_up_idem: "backed_up w (backed_up w fs) = backed_up w fs"
  by (simp add: backed_up_def settings_copied_upd settings_copied_idem)

lemma backed_up_cong:
  assumes "cwd w' = cwd w" "dirs w' = dirs w" "platform w' = platform w"
    "IS_WINDOWS w' = IS_WINDOWS w" "home w' = home w" "APPDATA w' = APPDATA w"
    "code_installed w' = code_installed w" "code_extensions w' = code_extensions w"
  shows "backed_up w' fs = backed_up w fs"
  using assms
  by (simp add: backed_up_def settings_copied_def starts_def listed_def split: option.splits)

lemma IS_WINDOWS_detect:
  "platform w' = platform w \<Longrightarrow> IS_WINDOWS (detect w') = IS_WINDOWS (detect w)"
  by (simp add: detect_def)

section \<open>Comparing a sequence with itself\<close>

text \<open>
  Comparing a sequence with itself. \<open>run a i\<close> is the number of consecutive elements
  ending at position \<open>i\<close> that are keys of \<open>b2j a\<close> (that is, not popular).
\<close>

fun run :: "'a list \<Rightarrow> nat \<Rightarrow> nat" where
  "run a 0 = (if b2j a (a ! 0) = None then 0 else 1)"
| "run a (Suc i) = (if b2j a (a ! Suc i) = None then 0 else run a i + 1)"

lemma run_pos: "b2j a (a ! i) \<noteq> None \<Longrightarrow> 0 < run a i"
  by (cases i) simp_all

lemma run_none: "b2j a (a ! i) = None \<Longrightarrow> run a i = 0"
  by (cases i) simp_all

lemma run_step: "b2j a (a ! i) \<noteq> None \<Longrightarrow> 0 < i \<Longrightarrow> run a i = run a (i - 1) + 1"
  by (cases i) simp_all

definition row_run :: "'a list \<Rightarrow> nat \<Rightarrow> (nat \<rightharpoonup> nat) \<Rightarrow> bool" where
  "row_run a t m =
     ((\<forall>j v. m j = Some v \<longrightarrow> 0 < t \<and> v \<le> run a (min (t - 1) j)) \<and>
      (0 < t \<longrightarrow> m (t - 1) = (if b2j a (a ! (t - 1)) = None then None else Some (run a (t - 1)))))"

lemma k_bound:
  assumes "row_run a i m" "a ! j = a ! i" "b2j a (a ! i) \<noteq> None"
  shows "j2lenget m j + 1 \<le> run a (min i j)"
proof -
  have np: "b2j a (a ! min i j) \<noteq> None"
    using assms(2,3) by (simp add: min_def)
  show ?thesis
  proof (cases "j = 0")
    case True
    with run_pos [OF np] show ?thesis by (simp add: j2lenget_def)
  next
    case False
    show ?thesis
    proof (cases "m (j - 1)")
      case None
      with False run_pos [OF np] show ?thesis by (simp add: j2lenget_def)
    next
      case (Some v)
      with assms(1) have i: "0 < i" and v: "v \<le> run a (min (i - 1) (j - 1))"
        by (auto simp: row_run_def)
      from i False have "min (i - 1) (j - 1) = min i j - 1" "0 < min i j" by auto
      with run_step [OF np] v have "v + 1 \<le> run a (min i j)" by simp
      with False Some show ?thesis by (simp add: j2lenget_def)
    qed
  qed
qed

lemma k_diag:
  assumes "row_run a i m" "b2j a (a ! i) \<noteq> None"
  shows "j2lenget m i + 1 = run a i"
proof (cases "i = 0")
  case True
  with assms(2) show ?thesis by (simp add: j2lenget_def)
next
  case False
  with assms(1) have m: "m (i - 1) = (if b2j a (a ! (i - 1)) = None then None else Some (run a (i - 1)))"
    by (simp add: row_run_def)
  from False run_step [OF assms(2)] have r: "run a i = run a (i - 1) + 1" by simp
  show ?thesis
  proof (cases "b2j a (a ! (i - 1)) = None")
    case True
    with m have "m (i - 1) = None" by simp
    with False r run_none [OF True] show ?thesis by (simp add: j2lenget_def)
  next
    case np': False
    with m have "m (i - 1) = Some (run a (i - 1))" by simp
    with False r show ?thesis by (simp add: j2lenget_def)
  qed
qed

definition row_inv :: "'a list \<Rightarrow> nat \<Rightarrow> nat list \<Rightarrow> (nat \<rightharpoonup> nat) \<times> best \<Rightarrow> bool" where
  "row_inv a i js st =
     (case st of (newj2len, besti, bestj, bestsize) \<Rightarrow>
        besti = bestj \<and> (\<forall>t<i. run a t \<le> bestsize) \<and>
        (\<forall>j v. newj2len j = Some v \<longrightarrow> v \<le> run a (min i j)) \<and>
        (i \<in> set js \<or> (run a i \<le> bestsize \<and> newj2len i = Some (run a i))))"

lemma scan_row_diag:
  assumes prev: "row_run a i m" and np: "b2j a (a ! i) \<noteq> None"
  shows "sorted_wrt (<) js \<Longrightarrow> \<forall>j\<in>set js. j < n \<and> a ! j = a ! i \<Longrightarrow> row_inv a i js st \<Longrightarrow>
         row_inv a i [] (scan_row 0 n i m js st)"
proof (induction js arbitrary: st)
  case Nil
  then show ?case by simp
next
  case (Cons j js)
  obtain newj2len besti bestj bestsize where st: "st = (newj2len, besti, bestj, bestsize)"
    by (cases st) auto
  from Cons.prems(2) have j: "j < n" "a ! j = a ! i" by simp_all
  from Cons.prems(1) have sorted: "sorted_wrt (<) js" and above: "\<forall>x\<in>set js. j < x" by simp_all
  from Cons.prems(2) have members: "\<forall>j\<in>set js. j < n \<and> a ! j = a ! i" by simp
  define k where "k = j2lenget m j + 1"
  have kb: "k \<le> run a (min i j)"
    unfolding k_def by (rule k_bound [OF prev j(2) np])
  have kd: "j = i \<Longrightarrow> k = run a i"
    unfolding k_def using k_diag [OF prev np] by simp
  from Cons.prems(3) st have inv: "besti = bestj" "\<forall>t<i. run a t \<le> bestsize"
    "\<forall>j v. newj2len j = Some v \<longrightarrow> v \<le> run a (min i j)"
    "i \<in> set (j # js) \<or> (run a i \<le> bestsize \<and> newj2len i = Some (run a i))"
    by (simp_all add: row_inv_def)
  have third: "\<forall>j' v. (newj2len(j \<mapsto> k)) j' = Some v \<longrightarrow> v \<le> run a (min i j')"
    using inv(3) kb by auto
  show ?case
  proof (cases "bestsize < k")
    case True
    have ij: "i = j"
    proof (rule ccontr)
      assume ne: "i \<noteq> j"
      show False
      proof (cases "j < i")
        case True
        with inv(2) have "run a j \<le> bestsize" by simp
        with kb True \<open>bestsize < k\<close> show False by (simp add: min_def)
      next
        case False
        with ne have "i < j" by simp
        with above have "i \<notin> set (j # js)" by auto
        with inv(4) have "run a i \<le> bestsize" by simp
        with kb \<open>i < j\<close> \<open>bestsize < k\<close> show False by (simp add: min_def)
      qed
    qed
    have eq: "scan_row 0 n i m (j # js) st =
        scan_row 0 n i m js (newj2len(j \<mapsto> k), i + 1 - k, j + 1 - k, k)"
      using True j st by (simp add: k_def Let_def)
    have "row_inv a i js (newj2len(j \<mapsto> k), i + 1 - k, j + 1 - k, k)"
      unfolding row_inv_def using ij inv(2) third True kd by auto
    from Cons.IH [OF sorted members this] show ?thesis
      unfolding eq .
  next
    case False
    have eq: "scan_row 0 n i m (j # js) st =
        scan_row 0 n i m js (newj2len(j \<mapsto> k), besti, bestj, bestsize)"
      using False j st by (simp add: k_def Let_def)
    have "row_inv a i js (newj2len(j \<mapsto> k), besti, bestj, bestsize)"
      unfolding row_inv_def using inv third False kd by auto
    from Cons.IH [OF sorted members this] show ?thesis
      unfolding eq .
  qed
qed

lemma b2j_Some: "b2j a x = Some js \<Longrightarrow> js = [j \<leftarrow> [0..<length a]. a ! j = x]"
  by (auto simp: b2j_def split: if_splits)

lemma row_inv_done:
  assumes "row_inv a i [] (m', bi, bj, bs)"
  shows "bi = bj" "\<forall>t<Suc i. run a t \<le> bs" "b2j a (a ! i) \<noteq> None \<Longrightarrow> row_run a (Suc i) m'"
proof -
  from assms have inv: "bi = bj" "\<forall>t<i. run a t \<le> bs"
    "\<forall>j v. m' j = Some v \<longrightarrow> v \<le> run a (min i j)"
    "run a i \<le> bs" "m' i = Some (run a i)"
    by (simp_all add: row_inv_def)
  show "bi = bj" by (rule inv(1))
  show "\<forall>t<Suc i. run a t \<le> bs"
    using inv(2,4) by (auto simp: less_Suc_eq)
  show "row_run a (Suc i) m'" if "b2j a (a ! i) \<noteq> None"
    using inv(3,5) that by (simp add: row_run_def)
qed

lemma scan_rows_diag:
  "row_run a i m \<Longrightarrow> besti = bestj \<Longrightarrow> \<forall>t<i. run a t \<le> bestsize \<Longrightarrow>
   fst (snd (scan_rows a a 0 (length a) [i..<length a] (m, besti, bestj, bestsize))) =
   fst (snd (snd (scan_rows a a 0 (length a) [i..<length a] (m, besti, bestj, bestsize))))"
proof (induction "length a - i" arbitrary: i m besti bestj bestsize)
  case 0
  then show ?case by simp
next
  case (Suc d)
  then have lt: "i < length a" by simp
  let ?n = "length a"
  let ?js = "case b2j a (a ! i) of None \<Rightarrow> [] | Some js \<Rightarrow> js"
  let ?st = "scan_row 0 ?n i m ?js (Map.empty, besti, bestj, bestsize)"
  have unfold: "scan_rows a a 0 ?n [i..<?n] (m, besti, bestj, bestsize) =
      scan_rows a a 0 ?n [Suc i..<?n] ?st"
    using lt by (simp add: upt_conv_Cons)
  obtain m' bi bj bs where st: "?st = (m', bi, bj, bs)"
    by (cases ?st) auto
  have next_ok: "row_run a (Suc i) m' \<and> bi = bj \<and> (\<forall>t<Suc i. run a t \<le> bs)"
  proof (cases "b2j a (a ! i)")
    case None
    with st have "m' = Map.empty" "bi = besti" "bj = bestj" "bs = bestsize" by simp_all
    with Suc.prems None run_none [OF None] show ?thesis
      by (auto simp: row_run_def less_Suc_eq)
  next
    case (Some js)
    from b2j_Some [OF Some] have js: "js = [j \<leftarrow> [0..<?n]. a ! j = a ! i]" .
    have sorted: "sorted_wrt (<) js"
      unfolding js by (rule sorted_wrt_filter) simp
    have members: "\<forall>j\<in>set js. j < ?n \<and> a ! j = a ! i"
      unfolding js by simp
    have "i \<in> set js" unfolding js using lt by simp
    with Suc.prems have start: "row_inv a i js (Map.empty, besti, bestj, bestsize)"
      by (simp add: row_inv_def)
    have np: "b2j a (a ! i) \<noteq> None" using Some by simp
    from scan_row_diag [OF Suc.prems(1) np sorted members start] st Some
    have "row_inv a i [] (m', bi, bj, bs)" by simp
    from row_inv_done [OF this] np show ?thesis by simp
  qed
  have "length a - Suc i = d" using Suc.hyps(2) by simp
  from Suc.hyps(1) [OF this [symmetric], of m' bi bj bs] next_ok
  show ?case unfolding unfold st by simp
qed

lemma extend_left_self: "extend_left a a 0 0 (d, d, s) = (0, 0, s + d)"
proof (induction d arbitrary: s)
  case 0
  show ?case by (subst extend_left.simps) simp
next
  case (Suc d)
  show ?case by (subst extend_left.simps) (simp add: Suc.IH)
qed

lemma extend_right_self:
  "s \<le> length a \<Longrightarrow> extend_right a a (length a) (length a) (0, 0, s) = (0, 0, length a)"
proof (induction "length a - s" arbitrary: s)
  case 0
  then show ?case by (subst extend_right.simps) simp
next
  case (Suc d)
  then have "length a - Suc s = d" "Suc s \<le> length a" "s < length a" by simp_all
  with Suc.hyps(1) [of "Suc s"] show ?case
    by (subst extend_right.simps) simp
qed

lemma find_longest_match_self:
  "find_longest_match a a 0 (length a) 0 (length a) = (0, 0, length a)"
proof -
  let ?n = "length a"
  let ?scan = "snd (scan_rows a a 0 ?n [0..<?n] (Map.empty, 0, 0, 0))"
  obtain bi bj bs where scan: "?scan = (bi, bj, bs)" by (cases ?scan) auto
  have "row_run a 0 Map.empty" by (simp add: row_run_def)
  from scan_rows_diag [OF this, of 0 0 0] scan have d: "bi = bj" by simp
  have "best_ok 0 ?n 0 ?n ?scan"
    by (rule scan_rows_ok) (simp_all add: row_ok_empty best_ok_def)
  with scan d have b: "bs + bi \<le> ?n"
    by (auto simp: best_ok_def split: if_splits)
  show ?thesis
    unfolding find_longest_match_def scan d
    by (simp add: extend_left_self extend_right_self b [unfolded d])
qed

lemma matching_loop_self:
  "matching_loop a a [(0, length a, 0, length a)] [] =
     (if length a = 0 then [] else [(0, 0, length a)])"
  by (simp add: find_longest_match_self)

lemma get_matching_blocks_self:
  "get_matching_blocks a a =
     (if length a = 0 then [] else [(0, 0, length a)]) @ [(length a, length a, 0)]"
  unfolding get_matching_blocks_def matching_loop_self
  by simp

lemma get_opcodes_self:
  "get_opcodes a a = (if length a = 0 then [] else [(Equal, 0, length a, 0, length a)])"
  unfolding get_opcodes_def get_matching_blocks_self
  by simp

lemma get_grouped_opcodes_self: "get_grouped_opcodes a a n = []"
  unfolding get_grouped_opcodes_def get_opcodes_self
  by (simp add: trim_first_def trim_last_def Let_def)

lemma unified_diff_self:
  "unified_diff a a fromfile tofile fromfiledate tofiledate n lineterm = []"
  by (simp add: unified_diff_def get_grouped_opcodes_self)

text \<open>When there is output, it starts with the two header lines and the first range line.\<close>

lemma hunk_head:
  "\<exists>r rest. hunk a b lineterm grp = (''@@ -'' @ r @ '' @@'' @ lineterm) # rest"
  by (cases "hd grp"; cases "last grp") (simp add: hunk_def)

lemma unified_diff_head:
  assumes "unified_diff a b fromfile tofile [] [] n lineterm \<noteq> []"
  shows "\<exists>r rest. unified_diff a b fromfile tofile [] [] n lineterm =
           [''--- '' @ fromfile @ lineterm, ''+++ '' @ tofile @ lineterm,
            ''@@ -'' @ r @ '' @@'' @ lineterm] @ rest"
proof (cases "get_grouped_opcodes a b n")
  case Nil
  with assms show ?thesis by (simp add: unified_diff_def)
next
  case (Cons g gs)
  from hunk_head [of a b lineterm g] obtain r rest
    where "hunk a b lineterm g = (''@@ -'' @ r @ '' @@'' @ lineterm) # rest" by blast
  with Cons show ?thesis
    by (simp add: unified_diff_def)
qed

lemma diff_eq:
  assumes "bind_p w = Inr (Some p)" "files w (backup_of w) = Some b"
    "files w (live_of w p) = Some l"
  shows "diff w =
     (Inr (),
      w\<lparr>stdout := stdout w @
           concat (unified_diff (readlines (universal_newlines b)) (readlines (universal_newlines l))
                     ''before.json'' ''after.json'' [] [] 3 [LF]),
        events := events w @
           [OpenR (backup_of w), OpenR (live_of w p), Read (backup_of w), Read (live_of w p),
            Close (live_of w p), Close (backup_of w)]\<rparr>)"
  using assms
  by (simp add: diff_def io_defs backup_of_def live_of_def file_readlines_def writelines_def)

lemma unified_diff_B_A:
  "unified_diff [''B''] [''A''] ''before.json'' ''after.json'' [] [] 3 [LF] =
     [''--- before.json'' @ [LF], ''+++ after.json'' @ [LF], ''@@ -1 +1 @@'' @ [LF], ''-B'', ''+A'']"
  by (simp add: unified_diff_def get_grouped_opcodes_def get_opcodes_def get_matching_blocks_def
      find_longest_match_def b2j_def popular_def extend_left.simps extend_right.simps
      trim_first_def trim_last_def hunk_def format_range_unified_def str_int_def str_nat.simps
      digit_def slice_def Let_def)

definition same_box :: world where
  "same_box =
     linux_box\<lparr>files := (files linux_box)
                   ([''home'', ''u'', ''dotfiles'', ''vscode-settings.jsonc''] \<mapsto> ''A'')\<rparr>"

lemma same_box_p:
  "bind_p (detect same_box) = Inr (Some (Rel [''~'', ''.config'', ''Code'', ''User'', ''settings.json'']))"
  by (simp add: bind_p_def same_box_def linux_box_def settings_json_def)

lemma diff_boxes:
  "files same_box (backup_of same_box) = Some ''A''"
  "files same_box (live_of same_box (Rel [''~'', ''.config'', ''Code'', ''User'', ''settings.json''])) = Some ''A''"
  "files linux_box (backup_of linux_box) = Some ''B''"
  "files linux_box (live_of linux_box (Rel [''~'', ''.config'', ''Code'', ''User'', ''settings.json''])) = Some ''A''"
  "stdout same_box = []" "stdout linux_box = []"
  by (simp_all add: same_box_def linux_box_def backup_of_def live_of_def resolve_def expanduser_def)

lemma readlines_letter: "readlines (universal_newlines ''A'') = [''A'']"
  "readlines (universal_newlines ''B'') = [''B'']"
  by (simp_all add: readlines_def CR_def LF_def)

section \<open>Claims about the command line\<close>

text \<open>
  C4. Whenever the arguments after the script name are not exactly one of the six
  command names (no argument, an unknown one, or more than one), the program
  prints the usage message to standard output, opens no file, starts no process,
  changes no file or directory, and ends with exit status 0.
\<close>

theorem usage_on_any_other_invocation:
  assumes "\<not> (length args = 1 \<and>
              args ! 0 \<in> {''backup'', ''comp'', ''install'', ''uninstall'', ''diff'', ''restore''})"
  shows "exit_code (main argv0 args w) = 0 \<and>
         stdout (snd (main argv0 args w)) =
           stdout w @ ''Usage: '' @ argv0 @ '' [OPTION]'' @ [LF] @ usage_text @ [LF] \<and>
         events (snd (main argv0 args w)) = events w \<and>
         files (snd (main argv0 args w)) = files w \<and>
         dirs (snd (main argv0 args w)) = dirs w"
  unfolding main_man [OF assms]
  by (simp add: man_def print_line_def exit_code_def)

theorem usage_on_any_other_invocation_witness:
  "exit_code (main ''vscode-env-manager.py'' [] linux_box) = 0 \<and>
   exit_code (main ''vscode-env-manager.py'' [''status''] linux_box) = 0 \<and>
   exit_code (main ''vscode-env-manager.py'' [''backup'', ''now''] linux_box) = 0 \<and>
   events (snd (main ''vscode-env-manager.py'' [''status''] linux_box)) = [] \<and>
   stdout (snd (main ''vscode-env-manager.py'' [''status''] linux_box)) =
     ''Usage: vscode-env-manager.py [OPTION]'' @ [LF] @ usage_text @ [LF]"
  using usage_on_any_other_invocation [of "[]" "''vscode-env-manager.py''" linux_box]
    usage_on_any_other_invocation [of "[''status'']" "''vscode-env-manager.py''" linux_box]
    usage_on_any_other_invocation [of "[''backup'', ''now'']" "''vscode-env-manager.py''" linux_box]
  by (simp add: linux_box_def)

section \<open>Claims about restore\<close>

text \<open>
  C2, at an input where it fails. On Linux the second step of restore opens the
  path \<open>~/.config/Code/User/settings.json\<close> as it was bound, without
  \<open>expanduser()\<close>, so the operating system resolves it against the working
  directory. On a machine where that directory \<open>./~/.config/Code/User\<close> exists,
  restore completes successfully, the live settings file (content \<open>A\<close>) still
  holds \<open>A\<close> and the backup content \<open>B\<close> is in the stray file. On the same
  machine without that directory, restore ends in file-not-found for the stray
  path after writing the snapshot, and the live file is never written.
\<close>

theorem restore_on_linux_misses_the_live_file:
  "fst (main ''vscode-env-manager.py'' [''restore''] linux_tilde_box) = Inr () \<and>
   files linux_tilde_box [''home'', ''u'', ''.config'', ''Code'', ''User'', ''settings.json''] = Some ''A'' \<and>
   files linux_tilde_box [''home'', ''u'', ''dotfiles'', ''vscode-settings.jsonc''] = Some ''B'' \<and>
   files (snd (main ''vscode-env-manager.py'' [''restore''] linux_tilde_box))
     [''home'', ''u'', ''.config'', ''Code'', ''User'', ''settings.json''] = Some ''A'' \<and>
   files (snd (main ''vscode-env-manager.py'' [''restore''] linux_tilde_box))
     [''home'', ''u'', ''dotfiles'', ''~'', ''.config'', ''Code'', ''User'', ''settings.json''] = Some ''B'' \<and>
   main ''vscode-env-manager.py'' [''restore''] linux_box =
     (Inl (FileNotFoundError [''home'', ''u'', ''dotfiles'', ''~'', ''.config'', ''Code'', ''User'', ''settings.json'']),
      linux_box\<lparr>IS_WINDOWS := Some False,
        files := (files linux_box)([''home'', ''u'', ''dotfiles'', ''vscode-settings-1700000000.jsonc''] \<mapsto> ''A''),
        events := [OpenR [''home'', ''u'', ''.config'', ''Code'', ''User'', ''settings.json''],
                   OpenW [''home'', ''u'', ''dotfiles'', ''vscode-settings-1700000000.jsonc''],
                   Read [''home'', ''u'', ''.config'', ''Code'', ''User'', ''settings.json''],
                   Write [''home'', ''u'', ''dotfiles'', ''vscode-settings-1700000000.jsonc''] ''A'',
                   Close [''home'', ''u'', ''dotfiles'', ''vscode-settings-1700000000.jsonc''],
                   Close [''home'', ''u'', ''.config'', ''Code'', ''User'', ''settings.json''],
                   OpenR [''home'', ''u'', ''dotfiles'', ''vscode-settings.jsonc''],
                   Close [''home'', ''u'', ''dotfiles'', ''vscode-settings.jsonc'']]\<rparr>)"
proof -
  let ?p = "Rel [''~'', ''.config'', ''Code'', ''User'', ''settings.json'']"
  have t: "restore (detect linux_tilde_box) = (Inr (),
         (detect linux_tilde_box)\<lparr>files := (files (detect linux_tilde_box))
              (snapshot_of (detect linux_tilde_box) \<mapsto> universal_newlines ''A'',
               resolve (detect linux_tilde_box) ?p \<mapsto> universal_newlines ''B''),
           events := events (detect linux_tilde_box) @
             snapshot_events (detect linux_tilde_box) ?p (universal_newlines ''A'') @
             overwrite_events (detect linux_tilde_box) ?p (universal_newlines ''B'')\<rparr>)"
    by (rule restore_done [OF linux_p(2)])
       (simp_all add: box_defs live_of_def backup_of_def resolve_def expanduser_def)
  have l: "restore (detect linux_box) = (Inl (FileNotFoundError (resolve (detect linux_box) ?p)),
           (detect linux_box)\<lparr>files := (files (detect linux_box))
               (snapshot_of (detect linux_box) \<mapsto> universal_newlines ''A''),
             events := events (detect linux_box) @
               snapshot_events (detect linux_box) ?p (universal_newlines ''A'') @
               [OpenR (backup_of (detect linux_box)), Close (backup_of (detect linux_box))]\<rparr>)"
    by (rule restore_no_dir [OF linux_p(1), where B = "''B''"])
       (simp_all add: box_defs live_of_def backup_of_def resolve_def expanduser_def)
  show ?thesis
    unfolding main_command t l
    by (simp add: box_defs snapshot_of_def snapshot_name_def str_int_clock resolve_def
        snapshot_events_def live_of_def expanduser_def backup_of_def detect_def CR_def LF_def)
qed

text \<open>
  C3. In every run of restore, whenever a file other than the snapshot is opened for
  writing, the events of the run up to that point are exactly: the live settings
  file opened for reading, the snapshot file opened, the live file read, its
  content (as text mode reads it, every line ending a \<open>\n\<close>) written to the
  snapshot, the snapshot closed, the live file closed, the backup file opened for
  reading. So the snapshot holding the pre-restore content
  is written and closed before the first such opening, and it still holds that
  content when restore ends.
\<close>

theorem snapshot_closed_before_overwrite:
  assumes "events (snd (main argv0 [''restore''] w)) = events w @ new"
    and "OpenW q \<in> set new" and "q \<noteq> snapshot_of w"
  shows "\<exists>p A post.
           bind_p (detect w) = Inr (Some p) \<and> files w (live_of w p) = Some A \<and>
           q = resolve w p \<and>
           new = [OpenR (live_of w p), OpenW (snapshot_of w), Read (live_of w p),
                  Write (snapshot_of w) (universal_newlines A), Close (snapshot_of w),
                  Close (live_of w p), OpenR (backup_of w), OpenW q] @ post \<and>
           files (snd (main argv0 [''restore''] w)) (snapshot_of w) = Some (universal_newlines A)"
proof (cases w rule: restore_outcomes)
  case (no_path e)
  with assms show ?thesis by simp
next
  case unbound
  with assms show ?thesis by simp
next
  case (no_live p)
  with assms show ?thesis by simp
next
  case (no_cwd p A)
  with assms show ?thesis by auto
next
  case (no_backup p A)
  with assms show ?thesis by (auto simp: snapshot_events_def)
next
  case (no_dir p A B)
  with assms show ?thesis by (auto simp: snapshot_events_def)
next
  case (restored p A B)
  from paths_distinct [OF restored(1)] have ne: "resolve w p \<noteq> snapshot_of w" by simp
  from restored assms have q: "q = resolve w p"
    by (auto simp: snapshot_events_def overwrite_events_def)
  from restored assms have new: "new = snapshot_events w p (universal_newlines A) @
             overwrite_events w p (universal_newlines B)"
    by simp
  show ?thesis
    apply (rule exI [of _ p], rule exI [of _ A])
    using restored(1,2) q new ne restored(6)
    by (simp add: snapshot_events_def overwrite_events_def)
qed

theorem snapshot_closed_before_overwrite_witness:
  "OpenW [''C:'', ''Users'', ''u'', ''AppData'', ''Roaming'', ''Code'', ''User'', ''settings.json'']
     \<in> set (events (snd (main ''vscode-env-manager.py'' [''restore''] windows_box))) \<and>
   (\<exists>post. events (snd (main ''vscode-env-manager.py'' [''restore''] windows_box)) =
     [OpenR [''C:'', ''Users'', ''u'', ''AppData'', ''Roaming'', ''Code'', ''User'', ''settings.json''],
      OpenW [''C:'', ''Users'', ''u'', ''dotfiles'', ''vscode-settings-1700000000.jsonc''],
      Read [''C:'', ''Users'', ''u'', ''AppData'', ''Roaming'', ''Code'', ''User'', ''settings.json''],
      Write [''C:'', ''Users'', ''u'', ''dotfiles'', ''vscode-settings-1700000000.jsonc''] ''A'',
      Close [''C:'', ''Users'', ''u'', ''dotfiles'', ''vscode-settings-1700000000.jsonc''],
      Close [''C:'', ''Users'', ''u'', ''AppData'', ''Roaming'', ''Code'', ''User'', ''settings.json''],
      OpenR [''C:'', ''Users'', ''u'', ''dotfiles'', ''vscode-settings.jsonc''],
      OpenW [''C:'', ''Users'', ''u'', ''AppData'', ''Roaming'', ''Code'', ''User'', ''settings.json'']] @ post)"
proof -
  let ?r = "main ''vscode-env-manager.py'' [''restore''] windows_box"
  let ?q = "[''C:'', ''Users'', ''u'', ''AppData'', ''Roaming'', ''Code'', ''User'', ''settings.json'']"
  have ev: "events (snd ?r) = events windows_box @ events (snd ?r)"
    by (simp add: box_defs)
  have q: "OpenW ?q \<in> set (events (snd ?r))"
    unfolding restore_windows_box by simp
  have snap: "snapshot_of windows_box = [''C:'', ''Users'', ''u'', ''dotfiles'', ''vscode-settings-1700000000.jsonc'']"
    by (simp add: box_defs snapshot_of_def snapshot_name_def str_int_clock)
  have ne: "?q \<noteq> snapshot_of windows_box"
    unfolding snap by simp
  from snapshot_closed_before_overwrite [OF ev q ne]
  obtain p A post where p: "bind_p (detect windows_box) = Inr (Some p)"
    and A: "files windows_box (live_of windows_box p) = Some A"
    and new: "events (snd ?r) =
       [OpenR (live_of windows_box p), OpenW (snapshot_of windows_box), Read (live_of windows_box p),
        Write (snapshot_of windows_box) (universal_newlines A), Close (snapshot_of windows_box),
        Close (live_of windows_box p), OpenR (backup_of windows_box), OpenW ?q] @ post"
    by blast
  from p have p': "p = Abs ?q" by simp
  from A have A': "A = ''A''"
    unfolding p' by (simp add: box_defs live_of_def resolve_def expanduser_def)
  have "live_of windows_box p = ?q" "backup_of windows_box = [''C:'', ''Users'', ''u'', ''dotfiles'', ''vscode-settings.jsonc'']"
    unfolding p' by (simp_all add: box_defs live_of_def resolve_def expanduser_def backup_of_def)
  with new snap A' q show ?thesis
    by (simp add: CR_def)
qed

text \<open>
  C10. When the backup file \<open>vscode-settings.jsonc\<close> does not exist, restore ends
  in an error, opens no file for writing except the snapshot, and leaves every
  file other than the snapshot as it was, the live settings file included. When
  the snapshot step has run (the platform is supported, the live settings file can
  be read and the working directory exists), the error is file-not-found for the
  backup file, and the snapshot holds the content of the live settings file.
\<close>

theorem restore_without_backup:
  assumes "files w (backup_of w) = None"
  shows "(\<exists>e. fst (main argv0 [''restore''] w) = Inl e) \<and>
         (\<forall>q. OpenW q \<in> set (events (snd (main argv0 [''restore''] w))) \<longrightarrow>
              OpenW q \<in> set (events w) \<or> q = snapshot_of w) \<and>
         (\<forall>q. q \<noteq> snapshot_of w \<longrightarrow> files (snd (main argv0 [''restore''] w)) q = files w q) \<and>
         (\<forall>p A. bind_p (detect w) = Inr (Some p) \<and> files w (live_of w p) = Some A \<and>
                cwd w \<in> dirs w \<longrightarrow>
              fst (main argv0 [''restore''] w) = Inl (FileNotFoundError (backup_of w)) \<and>
              files (snd (main argv0 [''restore''] w)) (snapshot_of w) =
                Some (universal_newlines A))"
proof (cases w rule: restore_outcomes)
  case (no_path e)
  then show ?thesis by simp
next
  case unbound
  then show ?thesis by simp
next
  case (no_live p)
  then show ?thesis by simp
next
  case (no_cwd p A)
  then show ?thesis by simp
next
  case (no_backup p A)
  then show ?thesis by (auto simp: snapshot_events_def)
next
  case (no_dir p A B)
  with assms show ?thesis by simp
next
  case (restored p A B)
  with assms show ?thesis by simp
qed

theorem restore_without_backup_witness:
  "files no_backup_box (backup_of no_backup_box) = None \<and>
   fst (main ''vscode-env-manager.py'' [''restore''] no_backup_box) =
     Inl (FileNotFoundError [''home'', ''u'', ''dotfiles'', ''vscode-settings.jsonc'']) \<and>
   files (snd (main ''vscode-env-manager.py'' [''restore''] no_backup_box))
     [''home'', ''u'', ''.config'', ''Code'', ''User'', ''settings.json''] = Some ''A'' \<and>
   files (snd (main ''vscode-env-manager.py'' [''restore''] no_backup_box))
     [''home'', ''u'', ''dotfiles'', ''vscode-settings-1700000000.jsonc''] = Some ''A''"
proof -
  let ?p = "Rel [''~'', ''.config'', ''Code'', ''User'', ''settings.json'']"
  let ?r = "main ''vscode-env-manager.py'' [''restore''] no_backup_box"
  have h: "files no_backup_box (backup_of no_backup_box) = None"
    by (simp add: box_defs backup_of_def)
  have snap: "snapshot_of no_backup_box = [''home'', ''u'', ''dotfiles'', ''vscode-settings-1700000000.jsonc'']"
    by (simp add: box_defs snapshot_of_def snapshot_name_def str_int_clock)
  have live: "files no_backup_box (live_of no_backup_box ?p) = Some ''A''"
    "cwd no_backup_box \<in> dirs no_backup_box"
    by (simp_all add: box_defs live_of_def resolve_def expanduser_def)
  note t = restore_without_backup [OF h, of "''vscode-env-manager.py''"]
  from t have "\<forall>q. q \<noteq> snapshot_of no_backup_box \<longrightarrow> files (snd ?r) q = files no_backup_box q"
    by blast
  then have unchanged: "files (snd ?r) [''home'', ''u'', ''.config'', ''Code'', ''User'', ''settings.json''] = Some ''A''"
    unfolding snap by (simp add: box_defs)
  from t have "\<forall>p A. bind_p (detect no_backup_box) = Inr (Some p) \<and>
      files no_backup_box (live_of no_backup_box p) = Some A \<and> cwd no_backup_box \<in> dirs no_backup_box \<longrightarrow>
      fst ?r = Inl (FileNotFoundError (backup_of no_backup_box)) \<and>
      files (snd ?r) (snapshot_of no_backup_box) = Some (universal_newlines A)"
    by blast
  with linux_p(3) live have "fst ?r = Inl (FileNotFoundError (backup_of no_backup_box)) \<and>
      files (snd ?r) (snapshot_of no_backup_box) = Some (universal_newlines ''A'')"
    by blast
  then have "fst ?r = Inl (FileNotFoundError [''home'', ''u'', ''dotfiles'', ''vscode-settings.jsonc''])"
    "files (snd ?r) [''home'', ''u'', ''dotfiles'', ''vscode-settings-1700000000.jsonc''] = Some ''A''"
    unfolding snap by (simp_all add: backup_of_def box_defs CR_def)
  with h unchanged show ?thesis by blast
qed

section \<open>Claims about the extension lists\<close>

text \<open>
  C1. Let A be the recorded identifiers and B the live ones, as the code reads them
  (each line of \<open>vscode-extensions.txt\<close>, and each line the list-extensions command
  prints, with surrounding white space and the line end stripped). When the recorded
  file exists and the command can be started, comp succeeds and prints the section
  titled \<open>* CODE\<close> with the elements of B that are not in A and then the section
  titled \<open>* FILE\<close> with the elements of A that are not in B, each element once, in
  whatever order the interpreter iterates a set; a section with no element is not
  printed at all, so nothing is printed when A and B are equal as sets.
\<close>

theorem comp_prints_both_differences:
  assumes perm: "\<forall>l. mset (set_order w l) = mset l"
    and recorded: "files w (ext_path w) = Some fc"
    and tool: "starts (detect w)"
  shows "(\<exists>R L. distinct R \<and> set R = set (extensions_code w) - set (extensions_file w) \<and>
                distinct L \<and> set L = set (extensions_file w) - set (extensions_code w) \<and>
                fst (main argv0 [''comp''] w) = Inr () \<and>
                stdout (snd (main argv0 [''comp''] w)) =
                  stdout w @ section_text ''* CODE'' R @ section_text ''* FILE'' L) \<and>
         (set (extensions_file w) = set (extensions_code w) \<longrightarrow>
            stdout (snd (main argv0 [''comp''] w)) = stdout w)"
proof -
  let ?R = "difference w (extensions_code w) (extensions_file w)"
  let ?L = "difference w (extensions_file w) (extensions_code w)"
  from recorded have file': "files (detect w) (ext_path (detect w)) = Some fc" by simp
  have out: "fst (main argv0 [''comp''] w) = Inr ()"
    "stdout (snd (main argv0 [''comp''] w)) =
       stdout w @ section_text ''* CODE'' ?R @ section_text ''* FILE'' ?L"
    by (simp_all add: comp_cmd_eq [OF file' tool])
  note R = difference_set [OF perm, of "extensions_code w" "extensions_file w"]
  note L = difference_set [OF perm, of "extensions_file w" "extensions_code w"]
  have "set (extensions_file w) = set (extensions_code w) \<longrightarrow>
          stdout (snd (main argv0 [''comp''] w)) = stdout w"
  proof
    assume "set (extensions_file w) = set (extensions_code w)"
    with R(2) L(2) have "?R = []" "?L = []" by simp_all
    with out(2) show "stdout (snd (main argv0 [''comp''] w)) = stdout w"
      by (simp add: section_text_def)
  qed
  with R L out show ?thesis by blast
qed

theorem comp_prints_both_differences_witness:
  "(\<forall>l. mset (set_order linux_box l) = mset l) \<and>
   starts (detect linux_box) \<and>
   extensions_file linux_box = [''a.b'', ''c.d'', ''c.d''] \<and>
   extensions_code linux_box = [''a.b'', ''e.f''] \<and>
   stdout (snd (main ''vscode-env-manager.py'' [''comp''] linux_box)) =
     [LF] @ ''* CODE'' @ [LF] @ replicate 40 CHR ''-'' @ [LF] @ ''e.f'' @ [LF] @
     [LF] @ ''* FILE'' @ [LF] @ replicate 40 CHR ''-'' @ [LF] @ ''c.d'' @ [LF]"
proof -
  let ?r = "main ''vscode-env-manager.py'' [''comp''] linux_box"
  from comp_prints_both_differences [OF linux_box_ready, of "''vscode-env-manager.py''"]
  obtain R L where R: "distinct R" "set R = set (extensions_code linux_box) - set (extensions_file linux_box)"
    and L: "distinct L" "set L = set (extensions_file linux_box) - set (extensions_code linux_box)"
    and out: "stdout (snd ?r) = stdout linux_box @ section_text ''* CODE'' R @ section_text ''* FILE'' L"
    by blast
  from R have "R = [''e.f'']"
    by (intro distinct_singleton_set) (auto simp: linux_box_lists)
  moreover from L have "L = [''c.d'']"
    by (intro distinct_singleton_set) (auto simp: linux_box_lists)
  moreover have "stdout linux_box = []" by (simp add: linux_box_def)
  ultimately have "stdout (snd ?r) =
     [LF] @ ''* CODE'' @ [LF] @ replicate 40 CHR ''-'' @ [LF] @ ''e.f'' @ [LF] @
     [LF] @ ''* FILE'' @ [LF] @ replicate 40 CHR ''-'' @ [LF] @ ''c.d'' @ [LF]"
    using out by (simp add: section_text_def)
  with linux_box_ready linux_box_lists show ?thesis by blast
qed

text \<open>
  C5, as the code has it. When the recorded file exists and the command can be
  started, install runs the list-extensions query and then goes through the
  identifiers that are recorded and not live, each once, in the interpreter's set
  order, running the install-extension command for each. The exit status of a
  command is not looked at, so a command that ends in failure does not keep the
  later ones from running. A command that cannot be passed to a process at all
  (its identifier holds a NUL character or is longer than the platform allows)
  raises an exception that nothing catches: the commands before it have run, it
  and the ones after it have not, and install ends with that exception. When no
  command is refused, install succeeds and has run exactly one command for each
  such identifier and nothing else. uninstall does the same with the
  uninstall-extension command for the identifiers that are live and not recorded.
\<close>

theorem install_and_uninstall_run_until_refused:
  assumes perm: "\<forall>l. mset (set_order w l) = mset l"
    and recorded: "files w (ext_path w) = Some fc"
    and tool: "starts (detect w)"
  shows "(\<exists>L. distinct L \<and> set L = set (extensions_file w) - set (extensions_code w) \<and>
              main argv0 [''install''] w =
                (outcome w (map install_cmd L),
                 (detect w)\<lparr>events := events w @
                    [OpenR (ext_path w), Run list_extensions (truthy (IS_WINDOWS (detect w))),
                     Read (ext_path w)] @
                    map (\<lambda>args. Run args (truthy (IS_WINDOWS (detect w))))
                      (takeWhile (\<lambda>args. \<not> refused w args) (map install_cmd L)) @
                    [Close (ext_path w)]\<rparr>) \<and>
              ((\<forall>line\<in>set L. \<not> refused w (install_cmd line)) \<longrightarrow>
               main argv0 [''install''] w =
                (Inr (),
                 (detect w)\<lparr>events := events w @
                    [OpenR (ext_path w), Run list_extensions (truthy (IS_WINDOWS (detect w))),
                     Read (ext_path w)] @
                    map (\<lambda>line. Run [''code'', ''--install-extension'', line]
                                   (truthy (IS_WINDOWS (detect w)))) L @
                    [Close (ext_path w)]\<rparr>))) \<and>
         (\<exists>R. distinct R \<and> set R = set (extensions_code w) - set (extensions_file w) \<and>
              main argv0 [''uninstall''] w =
                (outcome w (map uninstall_cmd R),
                 (detect w)\<lparr>events := events w @
                    [OpenR (ext_path w), Run list_extensions (truthy (IS_WINDOWS (detect w))),
                     Read (ext_path w)] @
                    map (\<lambda>args. Run args (truthy (IS_WINDOWS (detect w))))
                      (takeWhile (\<lambda>args. \<not> refused w args) (map uninstall_cmd R)) @
                    [Close (ext_path w)]\<rparr>) \<and>
              ((\<forall>line\<in>set R. \<not> refused w (uninstall_cmd line)) \<longrightarrow>
               main argv0 [''uninstall''] w =
                (Inr (),
                 (detect w)\<lparr>events := events w @
                    [OpenR (ext_path w), Run list_extensions (truthy (IS_WINDOWS (detect w))),
                     Read (ext_path w)] @
                    map (\<lambda>line. Run [''code'', ''--uninstall-extension'', line]
                                   (truthy (IS_WINDOWS (detect w)))) R @
                    [Close (ext_path w)]\<rparr>)))"
proof -
  let ?L = "difference w (extensions_file w) (extensions_code w)"
  let ?R = "difference w (extensions_code w) (extensions_file w)"
  let ?sh = "truthy (IS_WINDOWS (detect w))"
  let ?head = "[OpenR (ext_path w), Run list_extensions ?sh, Read (ext_path w)]"
  from recorded have file': "files (detect w) (ext_path (detect w)) = Some fc" by simp
  note R = difference_set [OF perm, of "extensions_code w" "extensions_file w"]
  note L = difference_set [OF perm, of "extensions_file w" "extensions_code w"]
  have i: "main argv0 [''install''] w =
      (outcome w (map install_cmd ?L),
       (detect w)\<lparr>events := events w @ ?head @
          map (\<lambda>args. Run args ?sh) (takeWhile (\<lambda>args. \<not> refused w args) (map install_cmd ?L)) @
          [Close (ext_path w)]\<rparr>)"
    by (simp add: install_eq [OF file' tool])
  have u: "main argv0 [''uninstall''] w =
      (outcome w (map uninstall_cmd ?R),
       (detect w)\<lparr>events := events w @ ?head @
          map (\<lambda>args. Run args ?sh) (takeWhile (\<lambda>args. \<not> refused w args) (map uninstall_cmd ?R)) @
          [Close (ext_path w)]\<rparr>)"
    by (simp add: uninstall_eq [OF file' tool])
  have i_all: "(\<forall>line\<in>set ?L. \<not> refused w (install_cmd line)) \<longrightarrow>
      main argv0 [''install''] w =
        (Inr (),
         (detect w)\<lparr>events := events w @ ?head @
            map (\<lambda>line. Run [''code'', ''--install-extension'', line] ?sh) ?L @
            [Close (ext_path w)]\<rparr>)"
  proof
    assume "\<forall>line\<in>set ?L. \<not> refused w (install_cmd line)"
    then have ok: "\<forall>args\<in>set (map install_cmd ?L). \<not> refused w args" by simp
    then have t: "takeWhile (\<lambda>args. \<not> refused w args) (map install_cmd ?L) = map install_cmd ?L"
      by (simp only: takeWhile_eq_all_conv)
    show "main argv0 [''install''] w =
        (Inr (),
         (detect w)\<lparr>events := events w @ ?head @
            map (\<lambda>line. Run [''code'', ''--install-extension'', line] ?sh) ?L @
            [Close (ext_path w)]\<rparr>)"
      unfolding i t outcome_all [OF ok] by (simp add: install_cmd_def comp_def)
  qed
  have u_all: "(\<forall>line\<in>set ?R. \<not> refused w (uninstall_cmd line)) \<longrightarrow>
      main argv0 [''uninstall''] w =
        (Inr (),
         (detect w)\<lparr>events := events w @ ?head @
            map (\<lambda>line. Run [''code'', ''--uninstall-extension'', line] ?sh) ?R @
            [Close (ext_path w)]\<rparr>)"
  proof
    assume "\<forall>line\<in>set ?R. \<not> refused w (uninstall_cmd line)"
    then have ok: "\<forall>args\<in>set (map uninstall_cmd ?R). \<not> refused w args" by simp
    then have t: "takeWhile (\<lambda>args. \<not> refused w args) (map uninstall_cmd ?R) = map uninstall_cmd ?R"
      by (simp only: takeWhile_eq_all_conv)
    show "main argv0 [''uninstall''] w =
        (Inr (),
         (detect w)\<lparr>events := events w @ ?head @
            map (\<lambda>line. Run [''code'', ''--uninstall-extension'', line] ?sh) ?R @
            [Close (ext_path w)]\<rparr>)"
      unfolding u t outcome_all [OF ok] by (simp add: uninstall_cmd_def comp_def)
  qed
  from i i_all L have "\<exists>L. distinct L \<and> set L = set (extensions_file w) - set (extensions_code w) \<and>
      main argv0 [''install''] w =
        (outcome w (map install_cmd L),
         (detect w)\<lparr>events := events w @ ?head @
            map (\<lambda>args. Run args ?sh) (takeWhile (\<lambda>args. \<not> refused w args) (map install_cmd L)) @
            [Close (ext_path w)]\<rparr>) \<and>
      ((\<forall>line\<in>set L. \<not> refused w (install_cmd line)) \<longrightarrow>
       main argv0 [''install''] w =
        (Inr (),
         (detect w)\<lparr>events := events w @ ?head @
            map (\<lambda>line. Run [''code'', ''--install-extension'', line] ?sh) L @
            [Close (ext_path w)]\<rparr>))"
    by (intro exI [of _ ?L] conjI)
  moreover from u u_all R have "\<exists>R. distinct R \<and> set R = set (extensions_code w) - set (extensions_file w) \<and>
      main argv0 [''uninstall''] w =
        (outcome w (map uninstall_cmd R),
         (detect w)\<lparr>events := events w @ ?head @
            map (\<lambda>args. Run args ?sh) (takeWhile (\<lambda>args. \<not> refused w args) (map uninstall_cmd R)) @
            [Close (ext_path w)]\<rparr>) \<and>
      ((\<forall>line\<in>set R. \<not> refused w (uninstall_cmd line)) \<longrightarrow>
       main argv0 [''uninstall''] w =
        (Inr (),
         (detect w)\<lparr>events := events w @ ?head @
            map (\<lambda>line. Run [''code'', ''--uninstall-extension'', line] ?sh) R @
            [Close (ext_path w)]\<rparr>))"
    by (intro exI [of _ ?R] conjI)
  ultimately show ?thesis by (rule conjI)
qed

theorem install_and_uninstall_run_until_refused_witness:
  "(\<forall>l. mset (set_order linux_box l) = mset l) \<and>
   starts (detect linux_box) \<and>
   (\<forall>args. exit_status linux_box args = 1) \<and>
   fst (main ''vscode-env-manager.py'' [''install''] linux_box) = Inr () \<and>
   events (snd (main ''vscode-env-manager.py'' [''install''] linux_box)) =
     [OpenR [''home'', ''u'', ''dotfiles'', ''vscode-extensions.txt''],
      Run [''code'', ''--list-extensions''] False,
      Read [''home'', ''u'', ''dotfiles'', ''vscode-extensions.txt''],
      Run [''code'', ''--install-extension'', ''c.d''] False,
      Close [''home'', ''u'', ''dotfiles'', ''vscode-extensions.txt'']] \<and>
   events (snd (main ''vscode-env-manager.py'' [''uninstall''] linux_box)) =
     [OpenR [''home'', ''u'', ''dotfiles'', ''vscode-extensions.txt''],
      Run [''code'', ''--list-extensions''] False,
      Read [''home'', ''u'', ''dotfiles'', ''vscode-extensions.txt''],
      Run [''code'', ''--uninstall-extension'', ''e.f''] False,
      Close [''home'', ''u'', ''dotfiles'', ''vscode-extensions.txt'']]"
proof -
  let ?i = "main ''vscode-env-manager.py'' [''install''] linux_box"
  let ?u = "main ''vscode-env-manager.py'' [''uninstall''] linux_box"
  let ?sh = "truthy (IS_WINDOWS (detect linux_box))"
  let ?head = "[OpenR (ext_path linux_box), Run list_extensions ?sh, Read (ext_path linux_box)]"
  note t = install_and_uninstall_run_until_refused [OF linux_box_ready, of "''vscode-env-manager.py''"]
  from t obtain L where L: "distinct L"
      "set L = set (extensions_file linux_box) - set (extensions_code linux_box)"
    and i: "(\<forall>line\<in>set L. \<not> refused linux_box (install_cmd line)) \<longrightarrow>
       ?i = (Inr (),
             (detect linux_box)\<lparr>events := events linux_box @ ?head @
                map (\<lambda>line. Run [''code'', ''--install-extension'', line] ?sh) L @
                [Close (ext_path linux_box)]\<rparr>)"
    by blast
  from t obtain R where R: "distinct R"
      "set R = set (extensions_code linux_box) - set (extensions_file linux_box)"
    and u: "(\<forall>line\<in>set R. \<not> refused linux_box (uninstall_cmd line)) \<longrightarrow>
       ?u = (Inr (),
             (detect linux_box)\<lparr>events := events linux_box @ ?head @
                map (\<lambda>line. Run [''code'', ''--uninstall-extension'', line] ?sh) R @
                [Close (ext_path linux_box)]\<rparr>)"
    by blast
  from L have L': "L = [''c.d'']"
    by (intro distinct_singleton_set) (auto simp: linux_box_lists)
  from R have R': "R = [''e.f'']"
    by (intro distinct_singleton_set) (auto simp: linux_box_lists)
  have ok: "\<not> refused linux_box (install_cmd ''c.d'')" "\<not> refused linux_box (uninstall_cmd ''e.f'')"
    by (simp_all add: refused_def has_nul_def too_long_def install_cmd_def uninstall_cmd_def
        linux_box_def)
  from i ok(1) have i': "?i = (Inr (),
             (detect linux_box)\<lparr>events := events linux_box @ ?head @
                map (\<lambda>line. Run [''code'', ''--install-extension'', line] ?sh) [''c.d''] @
                [Close (ext_path linux_box)]\<rparr>)"
    unfolding L' by simp
  from u ok(2) have u': "?u = (Inr (),
             (detect linux_box)\<lparr>events := events linux_box @ ?head @
                map (\<lambda>line. Run [''code'', ''--uninstall-extension'', line] ?sh) [''e.f''] @
                [Close (ext_path linux_box)]\<rparr>)"
    unfolding R' by simp
  have sh: "?sh = False" by (simp add: detect_def linux_box_def truthy_def)
  have misc: "events linux_box = []" "ext_path linux_box = [''home'', ''u'', ''dotfiles'', ''vscode-extensions.txt'']"
    "\<forall>args. exit_status linux_box args = 1"
    by (simp_all add: linux_box_def ext_path_def)
  show ?thesis
    unfolding i' u' sh
    using linux_box_ready misc by (simp add: list_extensions_def)
qed

text \<open>
  C5 as stated fails: with the recorded identifiers \<open>a\<close>-NUL-\<open>b\<close> and \<open>c.d\<close>, none of
  them live, install ends with \<open>ValueError\<close> at the first one and never runs the
  install-extension command for \<open>c.d\<close>; uninstall does the same when these two are
  live and not recorded.
\<close>

theorem refused_identifier_stops_the_loop_counterexample:
  "extensions_file nul_box = [[CHR ''a'', CHR 0x00, CHR ''b''], ''c.d''] \<and>
   extensions_code nul_box = [] \<and>
   fst (main ''vscode-env-manager.py'' [''install''] nul_box) = Inl ValueError \<and>
   events (snd (main ''vscode-env-manager.py'' [''install''] nul_box)) =
     [OpenR [''home'', ''u'', ''dotfiles'', ''vscode-extensions.txt''],
      Run [''code'', ''--list-extensions''] False,
      Read [''home'', ''u'', ''dotfiles'', ''vscode-extensions.txt''],
      Close [''home'', ''u'', ''dotfiles'', ''vscode-extensions.txt'']] \<and>
   extensions_file nul_live_box = [] \<and>
   extensions_code nul_live_box = [[CHR ''a'', CHR 0x00, CHR ''b''], ''c.d''] \<and>
   fst (main ''vscode-env-manager.py'' [''uninstall''] nul_live_box) = Inl ValueError \<and>
   events (snd (main ''vscode-env-manager.py'' [''uninstall''] nul_live_box)) =
     [OpenR [''home'', ''u'', ''dotfiles'', ''vscode-extensions.txt''],
      Run [''code'', ''--list-extensions''] False,
      Read [''home'', ''u'', ''dotfiles'', ''vscode-extensions.txt''],
      Close [''home'', ''u'', ''dotfiles'', ''vscode-extensions.txt'']]"
proof -
  have f: "files (detect nul_box) (ext_path (detect nul_box)) =
      Some ([CHR ''a'', CHR 0x00, CHR ''b'', LF] @ ''c.d'' @ [LF])"
    "files (detect nul_live_box) (ext_path (detect nul_live_box)) = Some []"
    using nul_box_ready(1,3) by simp_all
  have d: "difference (detect nul_box) [[CHR ''a'', CHR 0x00, CHR ''b''], ''c.d''] [] =
      [[CHR ''a'', CHR 0x00, CHR ''b''], ''c.d'']"
    "difference (detect nul_live_box) [[CHR ''a'', CHR 0x00, CHR ''b''], ''c.d''] [] =
      [[CHR ''a'', CHR 0x00, CHR ''b''], ''c.d'']"
    by (simp_all add: difference_def nul_box_def nul_live_box_def linux_box_def)
  have r: "refused w (install_cmd [CHR ''a'', CHR 0x00, CHR ''b''])"
    "refused w (uninstall_cmd [CHR ''a'', CHR 0x00, CHR ''b''])"
    "has_nul (install_cmd [CHR ''a'', CHR 0x00, CHR ''b''])"
    "has_nul (uninstall_cmd [CHR ''a'', CHR 0x00, CHR ''b''])" for w
    by (simp_all add: refused_def has_nul_def install_cmd_def uninstall_cmd_def)
  have misc: "events nul_box = []" "events nul_live_box = []"
    "ext_path nul_box = [''home'', ''u'', ''dotfiles'', ''vscode-extensions.txt'']"
    "ext_path nul_live_box = [''home'', ''u'', ''dotfiles'', ''vscode-extensions.txt'']"
    "truthy (IS_WINDOWS (detect nul_box)) = False"
    "truthy (IS_WINDOWS (detect nul_live_box)) = False"
    by (simp_all add: nul_box_def nul_live_box_def linux_box_def ext_path_def detect_def truthy_def)
  show ?thesis
    unfolding main_command install_eq [OF f(1) nul_box_ready(2)]
      uninstall_eq [OF f(2) nul_box_ready(4)]
    using d r misc by (simp add: nul_box_lists list_extensions_def outcome_def)
qed

text \<open>
  C6, as the code has it. A recorded line and a live line name the same extension
  exactly when they are equal as strings after \<open>strip()\<close> has removed leading and
  trailing white space from each; the comparison is case-sensitive. So comp prints
  nothing exactly when the stripped recorded lines and the stripped live lines are
  the same set; every install-extension command that install runs is for a stripped
  recorded line that no stripped live line equals, and when install completes it
  has run for exactly those; and the converse for uninstall.
\<close>

theorem identifiers_compared_after_strip:
  assumes perm: "\<forall>l. mset (set_order w l) = mset l"
    and recorded: "files w (ext_path w) = Some fc"
    and tool: "starts (detect w)"
  shows "(stdout (snd (main argv0 [''comp''] w)) = stdout w \<longleftrightarrow>
            strip ` set (file_lines w) = strip ` set (code_lines w)) \<and>
         (\<forall>i. Run [''code'', ''--install-extension'', i] (truthy (IS_WINDOWS (detect w)))
                 \<in> set (drop (length (events w)) (events (snd (main argv0 [''install''] w)))) \<longrightarrow>
               i \<in> strip ` set (file_lines w) \<and> i \<notin> strip ` set (code_lines w)) \<and>
         (fst (main argv0 [''install''] w) = Inr () \<longrightarrow>
          (\<forall>i. Run [''code'', ''--install-extension'', i] (truthy (IS_WINDOWS (detect w)))
                 \<in> set (drop (length (events w)) (events (snd (main argv0 [''install''] w)))) \<longleftrightarrow>
               i \<in> strip ` set (file_lines w) \<and> i \<notin> strip ` set (code_lines w))) \<and>
         (\<forall>i. Run [''code'', ''--uninstall-extension'', i] (truthy (IS_WINDOWS (detect w)))
                 \<in> set (drop (length (events w)) (events (snd (main argv0 [''uninstall''] w)))) \<longrightarrow>
               i \<in> strip ` set (code_lines w) \<and> i \<notin> strip ` set (file_lines w)) \<and>
         (fst (main argv0 [''uninstall''] w) = Inr () \<longrightarrow>
          (\<forall>i. Run [''code'', ''--uninstall-extension'', i] (truthy (IS_WINDOWS (detect w)))
                 \<in> set (drop (length (events w)) (events (snd (main argv0 [''uninstall''] w)))) \<longleftrightarrow>
               i \<in> strip ` set (code_lines w) \<and> i \<notin> strip ` set (file_lines w)))"
proof -
  let ?L = "difference w (extensions_file w) (extensions_code w)"
  let ?R = "difference w (extensions_code w) (extensions_file w)"
  let ?sh = "truthy (IS_WINDOWS (detect w))"
  let ?ok = "\<lambda>args. \<not> refused w args"
  let ?new_i = "drop (length (events w)) (events (snd (main argv0 [''install''] w)))"
  let ?new_u = "drop (length (events w)) (events (snd (main argv0 [''uninstall''] w)))"
  from recorded have file': "files (detect w) (ext_path (detect w)) = Some fc" by simp
  note R = difference_set [OF perm, of "extensions_code w" "extensions_file w"]
  note L = difference_set [OF perm, of "extensions_file w" "extensions_code w"]
  have sets: "set (extensions_file w) = strip ` set (file_lines w)"
    "set (extensions_code w) = strip ` set (code_lines w)"
    by (simp_all add: extensions_file_def extensions_code_def)
  have "stdout (snd (main argv0 [''comp''] w)) = stdout w \<longleftrightarrow>
          difference w (extensions_code w) (extensions_file w) = [] \<and>
          difference w (extensions_file w) (extensions_code w) = []"
    by (simp add: comp_cmd_eq [OF file' tool])
  also have "\<dots> \<longleftrightarrow> set (extensions_code w) - set (extensions_file w) = {} \<and>
          set (extensions_file w) - set (extensions_code w) = {}"
    using R(2) L(2) by (metis set_empty)
  also have "\<dots> \<longleftrightarrow> strip ` set (file_lines w) = strip ` set (code_lines w)"
    unfolding sets by blast
  finally have c: "stdout (snd (main argv0 [''comp''] w)) = stdout w \<longleftrightarrow>
            strip ` set (file_lines w) = strip ` set (code_lines w)" .
  have ran_i: "Run [''code'', ''--install-extension'', i] ?sh \<in> set ?new_i \<longleftrightarrow>
      install_cmd i \<in> set (takeWhile ?ok (map install_cmd ?L))" for i
    by (auto simp: install_eq [OF file' tool] list_extensions_def install_cmd_def)
  have ran_u: "Run [''code'', ''--uninstall-extension'', i] ?sh \<in> set ?new_u \<longleftrightarrow>
      uninstall_cmd i \<in> set (takeWhile ?ok (map uninstall_cmd ?R))" for i
    by (auto simp: uninstall_eq [OF file' tool] list_extensions_def uninstall_cmd_def)
  have mem_i: "install_cmd i \<in> set (map install_cmd ?L) \<longleftrightarrow>
      i \<in> strip ` set (file_lines w) \<and> i \<notin> strip ` set (code_lines w)" for i
    using L(2) unfolding sets by (auto simp: install_cmd_def)
  have mem_u: "uninstall_cmd i \<in> set (map uninstall_cmd ?R) \<longleftrightarrow>
      i \<in> strip ` set (code_lines w) \<and> i \<notin> strip ` set (file_lines w)" for i
    using R(2) unfolding sets by (auto simp: uninstall_cmd_def)
  have i1: "\<forall>i. Run [''code'', ''--install-extension'', i] ?sh \<in> set ?new_i \<longrightarrow>
               i \<in> strip ` set (file_lines w) \<and> i \<notin> strip ` set (code_lines w)"
    using ran_i mem_i by (meson set_takeWhileD)
  have u1: "\<forall>i. Run [''code'', ''--uninstall-extension'', i] ?sh \<in> set ?new_u \<longrightarrow>
               i \<in> strip ` set (code_lines w) \<and> i \<notin> strip ` set (file_lines w)"
    using ran_u mem_u by (meson set_takeWhileD)
  have i2: "fst (main argv0 [''install''] w) = Inr () \<longrightarrow>
          (\<forall>i. Run [''code'', ''--install-extension'', i] ?sh \<in> set ?new_i \<longleftrightarrow>
               i \<in> strip ` set (file_lines w) \<and> i \<notin> strip ` set (code_lines w))"
  proof
    assume "fst (main argv0 [''install''] w) = Inr ()"
    then have "outcome w (map install_cmd ?L) = Inr ()"
      by (simp add: install_eq [OF file' tool])
    from outcome_Inr [OF this]
    have t: "takeWhile ?ok (map install_cmd ?L) = map install_cmd ?L" .
    show "\<forall>i. Run [''code'', ''--install-extension'', i] ?sh \<in> set ?new_i \<longleftrightarrow>
               i \<in> strip ` set (file_lines w) \<and> i \<notin> strip ` set (code_lines w)"
      unfolding ran_i t mem_i by (rule allI) (rule refl)
  qed
  have u2: "fst (main argv0 [''uninstall''] w) = Inr () \<longrightarrow>
          (\<forall>i. Run [''code'', ''--uninstall-extension'', i] ?sh \<in> set ?new_u \<longleftrightarrow>
               i \<in> strip ` set (code_lines w) \<and> i \<notin> strip ` set (file_lines w))"
  proof
    assume "fst (main argv0 [''uninstall''] w) = Inr ()"
    then have "outcome w (map uninstall_cmd ?R) = Inr ()"
      by (simp add: uninstall_eq [OF file' tool])
    from outcome_Inr [OF this]
    have t: "takeWhile ?ok (map uninstall_cmd ?R) = map uninstall_cmd ?R" .
    show "\<forall>i. Run [''code'', ''--uninstall-extension'', i] ?sh \<in> set ?new_u \<longleftrightarrow>
               i \<in> strip ` set (code_lines w) \<and> i \<notin> strip ` set (file_lines w)"
      unfolding ran_u t mem_u by (rule allI) (rule refl)
  qed
  from c i1 i2 u1 u2 show ?thesis by (intro conjI)
qed

theorem identifiers_compared_after_strip_witness:
  "(\<forall>l. mset (set_order space_box l) = mset l) \<and> starts (detect space_box) \<and>
   file_lines space_box = [''a.b '' @ [LF]] \<and> code_lines space_box = [''a.b'' @ [LF]] \<and>
   stdout (snd (main ''vscode-env-manager.py'' [''comp''] space_box)) = stdout space_box \<and>
   file_lines case_box = [''A.b'' @ [LF]] \<and> code_lines case_box = [''a.b'' @ [LF]] \<and>
   stdout (snd (main ''vscode-env-manager.py'' [''comp''] case_box)) \<noteq> stdout case_box"
proof -
  note s = identifiers_compared_after_strip [OF space_box_ready, of "''vscode-env-manager.py''"]
  note c = identifiers_compared_after_strip [OF case_box_ready, of "''vscode-env-manager.py''"]
  have "strip ` set (file_lines space_box) = strip ` set (code_lines space_box)"
    by (simp add: space_box_lines strip_def isspace_def LF_def)
  with s have 1: "stdout (snd (main ''vscode-env-manager.py'' [''comp''] space_box)) = stdout space_box"
    by blast
  have "strip ` set (file_lines case_box) \<noteq> strip ` set (code_lines case_box)"
    by (simp add: case_box_lines strip_def isspace_def LF_def)
  with c have 2: "stdout (snd (main ''vscode-env-manager.py'' [''comp''] case_box)) \<noteq> stdout case_box"
    by blast
  from 1 2 space_box_ready space_box_lines case_box_lines show ?thesis by blast
qed

text \<open>
  C6 as stated fails: the recorded identifier \<open>a.b\<close> followed by a space and the
  live identifier \<open>a.b\<close> differ in surrounding white space, yet comp reports no
  difference, install installs nothing and uninstall removes nothing.
\<close>

theorem surrounding_whitespace_counterexample:
  "file_lines space_box = [''a.b '' @ [LF]] \<and> code_lines space_box = [''a.b'' @ [LF]] \<and>
   ''a.b '' \<noteq> ''a.b'' \<and>
   stdout (snd (main ''vscode-env-manager.py'' [''comp''] space_box)) = [] \<and>
   events (snd (main ''vscode-env-manager.py'' [''install''] space_box)) =
     [OpenR [''home'', ''u'', ''dotfiles'', ''vscode-extensions.txt''],
      Run [''code'', ''--list-extensions''] False,
      Read [''home'', ''u'', ''dotfiles'', ''vscode-extensions.txt''],
      Close [''home'', ''u'', ''dotfiles'', ''vscode-extensions.txt'']] \<and>
   events (snd (main ''vscode-env-manager.py'' [''uninstall''] space_box)) =
     [OpenR [''home'', ''u'', ''dotfiles'', ''vscode-extensions.txt''],
      Run [''code'', ''--list-extensions''] False,
      Read [''home'', ''u'', ''dotfiles'', ''vscode-extensions.txt''],
      Close [''home'', ''u'', ''dotfiles'', ''vscode-extensions.txt'']]"
proof -
  have f: "files (detect space_box) (ext_path (detect space_box)) = Some (''a.b '' @ [LF])"
    using space_box_ready(2) by simp
  have d: "difference (detect space_box) [''a.b''] [''a.b''] = []"
    by (simp add: difference_def space_box_def linux_box_def)
  have misc: "events space_box = []" "stdout space_box = []"
    "ext_path space_box = [''home'', ''u'', ''dotfiles'', ''vscode-extensions.txt'']"
    "truthy (IS_WINDOWS (detect space_box)) = False"
    by (simp_all add: space_box_def linux_box_def ext_path_def detect_def truthy_def)
  show ?thesis
    unfolding main_command comp_cmd_eq [OF f space_box_ready(3)]
      install_eq [OF f space_box_ready(3)] uninstall_eq [OF f space_box_ready(3)]
    using d misc by (simp add: space_box_lines list_extensions_def section_text_def)
qed

section \<open>Claims about backup\<close>

text \<open>
  C8. Running backup a second time on the machine the first run left behind (the
  editor reports the same extensions, the live settings file is as it was) leaves
  every file as it was after the first run; in particular
  \<open>vscode-extensions.txt\<close> and \<open>vscode-settings.jsonc\<close> keep their content.
\<close>

theorem backup_twice_same_files:
  "files (snd (main argv0 [''backup''] (snd (main argv0 [''backup''] w)))) =
     files (snd (main argv0 [''backup''] w))"
proof -
  let ?w1 = "snd (backup (detect w))"
  have same: "backed_up (detect ?w1) fs = backed_up (detect w) fs" for fs
  proof (rule backed_up_cong)
    show "IS_WINDOWS (detect ?w1) = IS_WINDOWS (detect w)"
      by (rule IS_WINDOWS_detect) (simp add: backup_frame)
  qed (simp_all add: backup_frame)
  have "files (snd (backup (detect ?w1))) = backed_up (detect ?w1) (files ?w1)"
    by (simp add: backup_files)
  also have "\<dots> = backed_up (detect w) (backed_up (detect w) (files w))"
    by (simp add: same backup_files)
  also have "\<dots> = files ?w1"
    by (simp add: backed_up_idem backup_files)
  finally show ?thesis by simp
qed

theorem backup_twice_same_files_witness:
  "files (snd (main ''vscode-env-manager.py'' [''backup'']
       (snd (main ''vscode-env-manager.py'' [''backup''] linux_box)))) =
     files (snd (main ''vscode-env-manager.py'' [''backup''] linux_box)) \<and>
   files (snd (main ''vscode-env-manager.py'' [''backup''] linux_box))
     [''home'', ''u'', ''dotfiles'', ''vscode-extensions.txt''] = Some (''a.b'' @ [LF] @ ''e.f'' @ [CR, LF]) \<and>
   files (snd (main ''vscode-env-manager.py'' [''backup''] linux_box))
     [''home'', ''u'', ''dotfiles'', ''vscode-settings.jsonc''] = Some ''A''"
proof -
  have "files (snd (main ''vscode-env-manager.py'' [''backup''] linux_box))
     [''home'', ''u'', ''dotfiles'', ''vscode-extensions.txt''] = Some (''a.b'' @ [LF] @ ''e.f'' @ [CR, LF])"
    "files (snd (main ''vscode-env-manager.py'' [''backup''] linux_box))
     [''home'', ''u'', ''dotfiles'', ''vscode-settings.jsonc''] = Some ''A''"
    by (simp_all add: backup_files backed_up_def settings_copied_def copy_map_def starts_def
        listed_def linux_box_def settings_json_def)
  with backup_twice_same_files [of "''vscode-env-manager.py''" linux_box] show ?thesis
    by blast
qed

section \<open>Claims about unsupported platforms\<close>

text \<open>
  C9, as the code has it. On a platform whose name starts with neither \<open>linux\<close>
  nor \<open>win32\<close>, restore and diff both fail, but no settings path is derived and none
  is opened: restore raises the unbound-variable error for \<open>p\<close> before it touches
  any file, and diff raises it after opening (and closing again) the backup file,
  or raises file-not-found for the backup file when that one is missing.
\<close>

theorem unsupported_platform_fails:
  assumes "\<not> prefix ''linux'' (platform w)" "\<not> prefix ''win32'' (platform w)"
  shows "main argv0 [''restore''] w = (Inl (UnboundLocalError ''p''), detect w) \<and>
         main argv0 [''diff''] w =
           (case files w (backup_of w) of
              None \<Rightarrow> (Inl (FileNotFoundError (backup_of w)), detect w)
            | Some b \<Rightarrow>
                (Inl (UnboundLocalError ''p''),
                 (detect w)\<lparr>events := events w @ [OpenR (backup_of w), Close (backup_of w)]\<rparr>))"
proof -
  note unbound = detect_unsupported [OF assms]
  have "restore (detect w) = (Inl (UnboundLocalError ''p''), detect w)"
    by (rule restore_no_path(2) [OF unbound])
  moreover have "diff (detect w) =
           (case files w (backup_of w) of
              None \<Rightarrow> (Inl (FileNotFoundError (backup_of w)), detect w)
            | Some b \<Rightarrow>
                (Inl (UnboundLocalError ''p''),
                 (detect w)\<lparr>events := events w @ [OpenR (backup_of w), Close (backup_of w)]\<rparr>))"
  proof (cases "files w (backup_of w)")
    case None
    then show ?thesis using diff_no_backup [of "detect w"] by simp
  next
    case (Some b)
    then show ?thesis using diff_no_path(1) [of "detect w" b, OF _ unbound] by simp
  qed
  ultimately show ?thesis by simp
qed

theorem unsupported_platform_fails_witness:
  "\<not> prefix ''linux'' (platform other_box) \<and> \<not> prefix ''win32'' (platform other_box) \<and>
   fst (main ''vscode-env-manager.py'' [''restore''] other_box) = Inl (UnboundLocalError ''p'') \<and>
   fst (main ''vscode-env-manager.py'' [''diff''] other_box) = Inl (UnboundLocalError ''p'')"
  using unsupported_platform_fails [of other_box "''vscode-env-manager.py''"]
  by (simp add: other_box_def linux_box_def backup_of_def)

text \<open>
  C9 as stated fails: on the platform \<open>darwin\<close> the failure of restore and of diff
  is the unbound-variable error, not a file-not-found error of a settings path,
  and no settings path is among the files opened.
\<close>

theorem unsupported_platform_counterexample:
  "fst (main ''vscode-env-manager.py'' [''restore''] other_box) = Inl (UnboundLocalError ''p'') \<and>
   events (snd (main ''vscode-env-manager.py'' [''restore''] other_box)) = [] \<and>
   fst (main ''vscode-env-manager.py'' [''diff''] other_box) = Inl (UnboundLocalError ''p'') \<and>
   events (snd (main ''vscode-env-manager.py'' [''diff''] other_box)) =
     [OpenR [''home'', ''u'', ''dotfiles'', ''vscode-settings.jsonc''],
      Close [''home'', ''u'', ''dotfiles'', ''vscode-settings.jsonc'']]"
  by (simp add: other_box_def linux_box_def restore_def diff_def bind_p_def detect_def truthy_def
      io_defs resolve_def)

section \<open>Claims about diff\<close>

text \<open>
  C7, as the code has it. On a supported platform with both files present, diff
  succeeds and prints what \<open>unified_diff\<close> yields for the lines of the backup file
  (the from-file) and the lines of the live settings file (the to-file), with three
  lines of context and the labels \<open>before.json\<close> and \<open>after.json\<close>: when anything is
  printed it starts with the lines \<open>--- before.json\<close> and \<open>+++ after.json\<close> and a
  range line, and when the two line sequences are identical nothing is printed.
\<close>

theorem diff_prints_unified_diff:
  assumes "bind_p (detect w) = Inr (Some p)"
    and "files w (backup_of w) = Some b"
    and "files w (live_of w p) = Some l"
  shows "fst (main argv0 [''diff''] w) = Inr () \<and>
         stdout (snd (main argv0 [''diff''] w)) =
           stdout w @
           concat (unified_diff (readlines (universal_newlines b)) (readlines (universal_newlines l))
                     ''before.json'' ''after.json'' [] [] 3 [LF]) \<and>
         (readlines (universal_newlines b) = readlines (universal_newlines l) \<longrightarrow>
            stdout (snd (main argv0 [''diff''] w)) = stdout w) \<and>
         (stdout (snd (main argv0 [''diff''] w)) \<noteq> stdout w \<longrightarrow>
            (\<exists>r rest. stdout (snd (main argv0 [''diff''] w)) =
               stdout w @ ''--- before.json'' @ [LF] @ ''+++ after.json'' @ [LF] @
               ''@@ -'' @ r @ '' @@'' @ [LF] @ rest))"
proof -
  let ?B = "readlines (universal_newlines b)" and ?L = "readlines (universal_newlines l)"
  let ?d = "unified_diff ?B ?L ''before.json'' ''after.json'' [] [] 3 [LF]"
  from assms have eq: "diff (detect w) =
     (Inr (),
      (detect w)\<lparr>stdout := stdout w @ concat ?d,
        events := events w @
           [OpenR (backup_of w), OpenR (live_of w p), Read (backup_of w), Read (live_of w p),
            Close (live_of w p), Close (backup_of w)]\<rparr>)"
    using diff_eq [of "detect w" p b l] by simp
  then have out: "fst (main argv0 [''diff''] w) = Inr ()"
    "stdout (snd (main argv0 [''diff''] w)) = stdout w @ concat ?d"
    by simp_all
  have same: "?B = ?L \<longrightarrow> stdout (snd (main argv0 [''diff''] w)) = stdout w"
    using out(2) by (simp add: unified_diff_self)
  have head: "stdout (snd (main argv0 [''diff''] w)) \<noteq> stdout w \<longrightarrow>
            (\<exists>r rest. stdout (snd (main argv0 [''diff''] w)) =
               stdout w @ ''--- before.json'' @ [LF] @ ''+++ after.json'' @ [LF] @
               ''@@ -'' @ r @ '' @@'' @ [LF] @ rest)"
  proof
    assume "stdout (snd (main argv0 [''diff''] w)) \<noteq> stdout w"
    with out(2) have "?d \<noteq> []" by auto
    from unified_diff_head [OF this] obtain r rest where
      "?d = [''--- before.json'' @ [LF], ''+++ after.json'' @ [LF], ''@@ -'' @ r @ '' @@'' @ [LF]] @ rest"
      by auto
    with out(2) have "stdout (snd (main argv0 [''diff''] w)) =
               stdout w @ ''--- before.json'' @ [LF] @ ''+++ after.json'' @ [LF] @
               ''@@ -'' @ r @ '' @@'' @ [LF] @ concat rest"
      by simp
    then show "\<exists>r rest. stdout (snd (main argv0 [''diff''] w)) =
               stdout w @ ''--- before.json'' @ [LF] @ ''+++ after.json'' @ [LF] @
               ''@@ -'' @ r @ '' @@'' @ [LF] @ rest"
      by blast
  qed
  from out same head show ?thesis by blast
qed

theorem diff_prints_unified_diff_witness:
  "bind_p (detect same_box) = Inr (Some (Rel [''~'', ''.config'', ''Code'', ''User'', ''settings.json''])) \<and>
   files same_box (backup_of same_box) = Some ''A'' \<and>
   files same_box (live_of same_box (Rel [''~'', ''.config'', ''Code'', ''User'', ''settings.json''])) = Some ''A'' \<and>
   stdout (snd (main ''vscode-env-manager.py'' [''diff''] same_box)) = [] \<and>
   stdout (snd (main ''vscode-env-manager.py'' [''diff''] linux_box)) =
     ''--- before.json'' @ [LF] @ ''+++ after.json'' @ [LF] @ ''@@ -1 +1 @@'' @ [LF] @ ''-B+A''"
proof -
  note s = diff_prints_unified_diff [OF same_box_p diff_boxes(1,2), of "''vscode-env-manager.py''"]
  note d = diff_prints_unified_diff [OF linux_p(1) diff_boxes(3,4), of "''vscode-env-manager.py''"]
  from s have "readlines (universal_newlines ''A'') = readlines (universal_newlines ''A'') \<longrightarrow>
      stdout (snd (main ''vscode-env-manager.py'' [''diff''] same_box)) = stdout same_box"
    by blast
  then have 1: "stdout (snd (main ''vscode-env-manager.py'' [''diff''] same_box)) = []"
    using diff_boxes(5) by simp
  from d have "stdout (snd (main ''vscode-env-manager.py'' [''diff''] linux_box)) =
      stdout linux_box @
      concat (unified_diff (readlines (universal_newlines ''B'')) (readlines (universal_newlines ''A''))
                ''before.json'' ''after.json'' [] [] 3 [LF])"
    by blast
  then have 2: "stdout (snd (main ''vscode-env-manager.py'' [''diff''] linux_box)) =
     ''--- before.json'' @ [LF] @ ''+++ after.json'' @ [LF] @ ''@@ -1 +1 @@'' @ [LF] @ ''-B+A''"
    unfolding readlines_letter unified_diff_B_A using diff_boxes(6) by simp
  from 1 2 same_box_p diff_boxes(1,2) show ?thesis by blast
qed

text \<open>
  C7 as stated fails in the labels: for a backup file \<open>B\<close> and a live file \<open>A\<close>
  the output starts with \<open>--- before.json\<close>, not with a line \<open>--- before\<close>.
\<close>

theorem diff_labels_counterexample:
  "stdout (snd (main ''vscode-env-manager.py'' [''diff''] linux_box)) =
     ''--- before.json'' @ [LF] @ ''+++ after.json'' @ [LF] @ ''@@ -1 +1 @@'' @ [LF] @ ''-B+A'' \<and>
   take 11 (stdout (snd (main ''vscode-env-manager.py'' [''diff''] linux_box))) \<noteq>
     ''--- before'' @ [LF]"
proof -
  have "diff (detect linux_box) =
     (Inr (),
      (detect linux_box)\<lparr>stdout := stdout (detect linux_box) @
           concat (unified_diff (readlines (universal_newlines ''B'')) (readlines (universal_newlines ''A''))
                     ''before.json'' ''after.json'' [] [] 3 [LF]),
        events := events (detect linux_box) @
           [OpenR (backup_of (detect linux_box)),
            OpenR (live_of (detect linux_box) (Rel [''~'', ''.config'', ''Code'', ''User'', ''settings.json''])),
            Read (backup_of (detect linux_box)),
            Read (live_of (detect linux_box) (Rel [''~'', ''.config'', ''Code'', ''User'', ''settings.json''])),
            Close (live_of (detect linux_box) (Rel [''~'', ''.config'', ''Code'', ''User'', ''settings.json''])),
            Close (backup_of (detect linux_box))]\<rparr>)"
    by (rule diff_eq [OF linux_p(1)]) (simp_all add: diff_boxes)
  then have "stdout (snd (main ''vscode-env-manager.py'' [''diff''] linux_box)) =
     ''--- before.json'' @ [LF] @ ''+++ after.json'' @ [LF] @ ''@@ -1 +1 @@'' @ [LF] @ ''-B+A''"
    unfolding readlines_letter unified_diff_B_A by (simp add: diff_boxes)
  then show ?thesis by (simp add: LF_def)
qed

end
